theory Spec2Isabelle
  imports Main "HOL-Library.AList" "HOL-Library.List_Lexorder" "HOL-Library.Product_Lexorder"
begin

section \<open>Python strings\<close>

text \<open>
  A Python \<open>str\<close> is a sequence of Unicode code points; \<open>len\<close> counts code points.
  Literals of the source are written \<open>py ''...''\<close>.
\<close>

type_synonym pystr = "nat list"

definition py :: "string \<Rightarrow> pystr" where
  "py s = map of_char s"

text \<open>
  \<open>str.isspace\<close> on one code point. The regular expression class \<open>\s\<close> on a \<open>str\<close>
  pattern, \<open>str.strip()\<close> and \<open>str.split()\<close> all use this set.
\<close>

definition isspace :: "nat \<Rightarrow> bool" where
  "isspace c \<longleftrightarrow>
     (0x09 \<le> c \<and> c \<le> 0x0D) \<or> (0x1C \<le> c \<and> c \<le> 0x20) \<or> c = 0x85 \<or> c = 0xA0 \<or>
     c = 0x1680 \<or> (0x2000 \<le> c \<and> c \<le> 0x200A) \<or> c = 0x2028 \<or> c = 0x2029 \<or>
     c = 0x202F \<or> c = 0x205F \<or> c = 0x3000"

text \<open>\<open>text.strip()\<close>: whitespace removed at both ends.\<close>

definition strip :: "pystr \<Rightarrow> pystr" where
  "strip s = rev (dropWhile isspace (rev (dropWhile isspace s)))"

text \<open>\<open>text.split()\<close>: the maximal runs of non-whitespace characters.\<close>

function split_ws :: "pystr \<Rightarrow> pystr list" where
  "split_ws s =
     (case dropWhile isspace s of
        [] \<Rightarrow> []
      | c # cs \<Rightarrow> takeWhile (\<lambda>x. \<not> isspace x) (c # cs)
                 # split_ws (dropWhile (\<lambda>x. \<not> isspace x) cs))"
  by pat_completeness auto
termination
proof (relation "measure length", goal_cases)
  case 1
  show ?case by simp
next
  case (2 s c cs)
  have "length (dropWhile (\<lambda>x. \<not> isspace x) cs) \<le> length cs"
    by (rule length_dropWhile_le)
  moreover have "length (dropWhile isspace s) \<le> length s"
    by (rule length_dropWhile_le)
  ultimately show ?case using 2 by simp
qed

text \<open>\<open>text.split(sep)\<close> for a one-character separator: never an empty list.\<close>

fun split_on :: "nat \<Rightarrow> pystr \<Rightarrow> pystr list" where
  "split_on sep [] = [[]]"
| "split_on sep (c # cs) =
     (if c = sep then [] # split_on sep cs
      else (case split_on sep cs of
              [] \<Rightarrow> [[c]]
            | seg # segs \<Rightarrow> (c # seg) # segs))"

text \<open>\<open>x in s\<close> on strings: \<open>x\<close> occurs in \<open>s\<close> as a contiguous substring.\<close>

fun startswith :: "pystr \<Rightarrow> pystr \<Rightarrow> bool" where
  "startswith s [] = True"
| "startswith [] (x # xs) = False"
| "startswith (c # cs) (x # xs) = (c = x \<and> startswith cs xs)"

fun contains :: "pystr \<Rightarrow> pystr \<Rightarrow> bool" where
  "contains x [] = (x = [])"
| "contains x (c # cs) = (startswith (c # cs) x \<or> contains x cs)"

section \<open>Text cleaning\<close>

text \<open>
  \<open>re.sub(r'\s+', ' ', text)\<close>: scanning from the left, every maximal run of whitespace
  is replaced by one space.
\<close>

function sub_ws :: "pystr \<Rightarrow> pystr" where
  "sub_ws [] = []"
| "sub_ws (c # cs) =
     (if isspace c then 0x20 # sub_ws (dropWhile isspace cs) else c # sub_ws cs)"
  by pat_completeness auto
termination
proof (relation "measure length", goal_cases)
  case 1
  show ?case by simp
next
  case (2 c cs)
  have "length (dropWhile isspace cs) \<le> length cs"
    by (rule length_dropWhile_le)
  then show ?case by simp
next
  case (3 c cs)
  show ?case by simp
qed

text \<open>
  \<open>re.sub(r'\n{3,}', '\n\n', text)\<close>: scanning from the left, a run of three or more
  newlines is matched greedily and replaced by two newlines; where fewer than three
  newlines follow, the character is copied.
\<close>

function sub_nl :: "pystr \<Rightarrow> pystr" where
  "sub_nl [] = []"
| "sub_nl (c # cs) =
     (if 3 \<le> length (takeWhile (\<lambda>x. x = 0x0A) (c # cs))
      then 0x0A # 0x0A # sub_nl (dropWhile (\<lambda>x. x = 0x0A) cs)
      else c # sub_nl cs)"
  by pat_completeness auto
termination
proof (relation "measure length", goal_cases)
  case 1
  show ?case by simp
next
  case (2 c cs)
  have "length (dropWhile (\<lambda>x. x = 0x0A) cs) \<le> length cs"
    by (rule length_dropWhile_le)
  then show ?case by simp
next
  case (3 c cs)
  show ?case by simp
qed

text \<open>The character class \<open>[\x00-\x08\x0b-\x0c\x0e-\x1f\x7f-\x9f]\<close>.\<close>

definition is_control :: "nat \<Rightarrow> bool" where
  "is_control c \<longleftrightarrow>
     c \<le> 0x08 \<or> (0x0B \<le> c \<and> c \<le> 0x0C) \<or> (0x0E \<le> c \<and> c \<le> 0x1F) \<or>
     (0x7F \<le> c \<and> c \<le> 0x9F)"

definition sub_control :: "pystr \<Rightarrow> pystr" where
  "sub_control text = filter (\<lambda>c. \<not> is_control c) text"

definition basic_cleaning :: "pystr \<Rightarrow> pystr" where
  "basic_cleaning text =
     (let text = sub_ws text;
          text = sub_nl text;
          text = sub_control text
      in strip text)"

text \<open>A run of whitespace longer than one character: two adjacent whitespace characters.\<close>

fun ws_run :: "pystr \<Rightarrow> bool" where
  "ws_run (a # b # cs) = ((isspace a \<and> isspace b) \<or> ws_run (b # cs))"
| "ws_run cs = False"

section \<open>Paths, values, exceptions\<close>

text \<open>A \<open>pathlib.Path\<close>: the directory part and the final component.\<close>

datatype path = Path (parent: pystr) (name: pystr)

text \<open>\<open>name.rfind('.')\<close>: the last index of the character, \<open>-1\<close> when there is none.\<close>

fun rfind_from :: "pystr \<Rightarrow> nat \<Rightarrow> nat \<Rightarrow> int \<Rightarrow> int" where
  "rfind_from [] c i r = r"
| "rfind_from (x # xs) c i r = rfind_from xs c (Suc i) (if x = c then int i else r)"

definition rfind :: "pystr \<Rightarrow> nat \<Rightarrow> int" where
  "rfind s c = rfind_from s c 0 (- 1)"

text \<open>\<open>Path.stem\<close>: the final component without its last suffix.\<close>

definition stem :: "path \<Rightarrow> pystr" where
  "stem p =
     (let i = rfind (name p) 0x2E
      in if 0 < i \<and> i < int (length (name p)) - 1 then take (nat i) (name p) else name p)"

text \<open>
  Exceptions. \<open>Exception msg\<close> is any exception a library call raises (the PDF backends,
  the file system, the JSON decoder for errors other than \<open>JSONDecodeError\<close>).
  \<open>Unsupported\<close> marks a value outside the value universe below where Python would
  go on computing (a float where the program stores an integer, a non-string source type).
\<close>

datatype exn = Exception pystr | KeyError string | TypeError | Unsupported

text \<open>
  The values stored in a metadata dictionary. \<open>VSizeMB n\<close> stands for the float
  \<open>round(n / (1024 * 1024), 2)\<close>; float arithmetic is not evaluated.
\<close>

datatype pyval = VStr pystr | VInt int | VSizeMB nat

text \<open>
  A \<open>dict\<close> is an association list in insertion order; \<open>d[k] = v\<close> is \<open>AList.update\<close>,
  which replaces the value of a present key in place and appends a new key at the end.
\<close>

type_synonym metadata = "(string \<times> pyval) list"

text \<open>\<open>d[k]\<close>: raises \<open>KeyError\<close> for a missing key.\<close>

definition subscript :: "metadata \<Rightarrow> string \<Rightarrow> exn + pyval" where
  "subscript d k = (case map_of d k of None \<Rightarrow> Inl (KeyError k) | Some v \<Rightarrow> Inr v)"

section \<open>The outside world\<close>

text \<open>
  What one page gives to \<open>page.extract_text()\<close>, and what opening a document gives:
  a failure, or the pages in order. A failure while the pages are enumerated is a
  \<open>Page_fails\<close> at that position.
\<close>

datatype page_result = Page_text pystr | Page_none | Page_fails exn

datatype pdf_result = Open_fails exn | Pages "page_result list"

text \<open>
  What \<open>PyPDF2.PdfReader\<close> gives to \<open>extract_metadata\<close>: a failure before the page
  count is known (open, constructor or \<open>len(pdf_reader.pages)\<close>), a failure of
  \<open>pdf_reader.metadata\<close> after the page count was read, or the page count and the
  document information (\<open>None\<close> when the file has none).
\<close>

datatype info_result =
    Reader_fails exn
  | Metadata_fails nat exn
  | Info nat "(pystr \<times> pystr) list option"

text \<open>
  What \<open>json.loads\<close> does with one line: it returns, it raises \<open>json.JSONDecodeError\<close>
  with a detail, or it raises another exception (\<open>RecursionError\<close> on a deeply nested
  value, for instance).
\<close>

datatype loads_result = Loaded | JSONDecodeError pystr | Loads_fails exn

text \<open>
  What iterating over an open text file yields, one item at a time: the next line, or
  the exception raised in place of it (a \<open>UnicodeDecodeError\<close>). The file is read as
  the loop asks for lines, so the items after the one the loop stops at are never
  produced.
\<close>

datatype line_item = Line pystr | Read_fails exn

record world =
  glob_pdf :: "path list"
  st_size :: "path \<Rightarrow> exn + nat"
  now_isoformat :: "path \<Rightarrow> pystr"
  str_lower :: "pystr \<Rightarrow> pystr"
  pdfplumber_open :: "path \<Rightarrow> pdf_result"
  pypdf2_open :: "path \<Rightarrow> pdf_result"
  pypdf2_info :: "path \<Rightarrow> info_result"
  read_lines :: "pystr \<Rightarrow> exn + line_item list"
  json_loads :: "pystr \<Rightarrow> loads_result"

text \<open>
  The trace of a run: every call into a backend and every line printed, in order.
  A printed line is kept as its format with the interpolated values.
\<close>

datatype message =
    Warn_pypdf2 pystr exn
  | Warn_pdfplumber pystr exn
  | Fallback_to_pypdf2 pystr
  | Warn_metadata exn
  | Error_no_pdf_files
  | Files_found nat
  | Processing nat nat pystr
  | Warn_no_text
  | Words_extracted pyval
  | Pages_and_type pyval pyval
  | Error_line nat pystr
  | No_problem

datatype event =
    Call_pdfplumber path
  | Call_pypdf2 path
  | Call_reader path
  | Call_loads pystr
  | Print message

section \<open>Text extraction\<close>

text \<open>
  The page loop of \<open>extract_with_pypdf2\<close>: \<open>text += page.extract_text() + "\n"\<close>.
  The result is the text accumulated when the loop ends and the exception that ended it,
  if any; \<open>None + "\n"\<close> is a \<open>TypeError\<close>.
\<close>

fun pypdf2_pages :: "page_result list \<Rightarrow> pystr \<Rightarrow> pystr \<times> exn option" where
  "pypdf2_pages [] text = (text, None)"
| "pypdf2_pages (Page_text t # pages) text = pypdf2_pages pages (text @ (t @ [0x0A]))"
| "pypdf2_pages (Page_none # pages) text = (text, Some TypeError)"
| "pypdf2_pages (Page_fails e # pages) text = (text, Some e)"

definition extract_with_pypdf2 :: "world \<Rightarrow> path \<Rightarrow> pystr \<times> event list" where
  "extract_with_pypdf2 w pdf_path =
     (case pypdf2_open w pdf_path of
        Open_fails e \<Rightarrow>
          ([], [Call_pypdf2 pdf_path, Print (Warn_pypdf2 (name pdf_path) e)])
      | Pages pages \<Rightarrow>
          (case pypdf2_pages pages [] of
             (text, None) \<Rightarrow> (text, [Call_pypdf2 pdf_path])
           | (text, Some e) \<Rightarrow>
               (text, [Call_pypdf2 pdf_path, Print (Warn_pypdf2 (name pdf_path) e)])))"

text \<open>The page loop of \<open>extract_with_pdfplumber\<close>: a page without text is skipped.\<close>

fun pdfplumber_pages :: "page_result list \<Rightarrow> pystr \<Rightarrow> pystr \<times> exn option" where
  "pdfplumber_pages [] text = (text, None)"
| "pdfplumber_pages (Page_text t # pages) text =
     (if t \<noteq> [] then pdfplumber_pages pages (text @ (t @ [0x0A]))
      else pdfplumber_pages pages text)"
| "pdfplumber_pages (Page_none # pages) text = pdfplumber_pages pages text"
| "pdfplumber_pages (Page_fails e # pages) text = (text, Some e)"

definition extract_with_pdfplumber :: "world \<Rightarrow> path \<Rightarrow> pystr \<times> event list" where
  "extract_with_pdfplumber w pdf_path =
     (case pdfplumber_open w pdf_path of
        Open_fails e \<Rightarrow>
          ([], [Call_pdfplumber pdf_path, Print (Warn_pdfplumber (name pdf_path) e)])
      | Pages pages \<Rightarrow>
          (case pdfplumber_pages pages [] of
             (text, None) \<Rightarrow> (text, [Call_pdfplumber pdf_path])
           | (text, Some e) \<Rightarrow>
               (text, [Call_pdfplumber pdf_path, Print (Warn_pdfplumber (name pdf_path) e)])))"

definition extract_text :: "world \<Rightarrow> path \<Rightarrow> pystr \<Rightarrow> pystr \<times> event list" where
  "extract_text w pdf_path method =
     (if method = py ''pdfplumber'' then
        (case extract_with_pdfplumber w pdf_path of
           (text, tr) \<Rightarrow>
             if strip text = [] then
               (case extract_with_pypdf2 w pdf_path of
                  (text2, tr2) \<Rightarrow>
                    (basic_cleaning text2,
                     tr @ [Print (Fallback_to_pypdf2 (name pdf_path))] @ tr2))
             else (basic_cleaning text, tr))
      else
        (case extract_with_pypdf2 w pdf_path of
           (text, tr) \<Rightarrow> (basic_cleaning text, tr)))"

text \<open>The default argument \<open>method = "pdfplumber"\<close>.\<close>

definition extract_text_default :: "world \<Rightarrow> path \<Rightarrow> pystr \<times> event list" where
  "extract_text_default w pdf_path = extract_text w pdf_path (py ''pdfplumber'')"

section \<open>Metadata\<close>

text \<open>The \<open>if\<close>/\<open>elif\<close> chain on the lowercased file name.\<close>

definition source_type_of :: "pystr \<Rightarrow> pystr" where
  "source_type_of filename_lower =
     (if list_ex (\<lambda>x. contains x filename_lower)
           [py ''mckinsey'', py ''bain'', py ''bcg'', py ''pwc'', py ''deloitte'']
      then py ''Consulting''
      else if list_ex (\<lambda>x. contains x filename_lower)
           [py ''mit'', py ''standford'', py ''harvard'']
      then py ''Academic''
      else if list_ex (\<lambda>x. contains x filename_lower)
           [py ''google'', py ''microsoft'', py ''openai'']
      then py ''Industry''
      else if list_ex (\<lambda>x. contains x filename_lower)
           [py ''wef'', py ''oecd'', py ''undp'', py ''iti'']
      then py ''Policy''
      else py ''Unknown'')"

text \<open>\<open>pdf_meta.get(key, '')\<close>.\<close>

definition meta_get :: "(pystr \<times> pystr) list \<Rightarrow> pystr \<Rightarrow> pystr" where
  "meta_get pdf_meta key = (case map_of pdf_meta key of None \<Rightarrow> [] | Some v \<Rightarrow> v)"

text \<open>
  The \<open>try\<close> block of \<open>extract_metadata\<close> with its handler. A document information
  that is \<open>None\<close> or empty is falsy, and the four descriptive keys are then not set.
  The four \<open>get\<close> calls on a document information that was read do not fail.
\<close>

fun read_pdf_metadata :: "info_result \<Rightarrow> metadata \<Rightarrow> metadata \<times> event list" where
  "read_pdf_metadata (Reader_fails e) metadata =
     (AList.update ''page_count'' (VInt 0) metadata, [Print (Warn_metadata e)])"
| "read_pdf_metadata (Metadata_fails n e) metadata =
     (AList.update ''page_count'' (VInt 0)
        (AList.update ''page_count'' (VInt (int n)) metadata),
      [Print (Warn_metadata e)])"
| "read_pdf_metadata (Info n pdf_meta) metadata =
     (let metadata = AList.update ''page_count'' (VInt (int n)) metadata
      in case pdf_meta of
           None \<Rightarrow> (metadata, [])
         | Some d \<Rightarrow>
             if d = [] then (metadata, [])
             else
               (let metadata = AList.update ''title'' (VStr (meta_get d (py ''/Title''))) metadata;
                    metadata = AList.update ''author'' (VStr (meta_get d (py ''/Author''))) metadata;
                    metadata = AList.update ''subject'' (VStr (meta_get d (py ''/Subject''))) metadata;
                    metadata = AList.update ''creator'' (VStr (meta_get d (py ''/Creator''))) metadata
                in (metadata, [])))"

text \<open>\<open>pdf_path.stat()\<close> is outside the \<open>try\<close> block: its failure leaves the function.\<close>

definition extract_metadata :: "world \<Rightarrow> path \<Rightarrow> pystr \<Rightarrow> (exn + metadata) \<times> event list" where
  "extract_metadata w pdf_path text =
     (case st_size w pdf_path of
        Inl e \<Rightarrow> (Inl e, [])
      | Inr sz \<Rightarrow>
          (let metadata =
                 [(''filename'', VStr (name pdf_path)),
                  (''file_size_mb'', VSizeMB sz),
                  (''extraction_date'', VStr (now_isoformat w pdf_path)),
                  (''char_count'', VInt (int (length text))),
                  (''word_count'', VInt (int (length (split_ws text)))),
                  (''line_count'', VInt (int (length (split_on 0x0A text))))]
           in case read_pdf_metadata (pypdf2_info w pdf_path) metadata of
                (metadata, warnings) \<Rightarrow>
                  (let filename_lower = str_lower w (name pdf_path);
                       metadata = AList.update ''source_type''
                                    (VStr (source_type_of filename_lower)) metadata
                   in (Inr metadata, Call_reader pdf_path # warnings))))"

section \<open>The corpus processor\<close>

text \<open>
  The two lines printed after a document is stored, from the dictionary that
  \<open>extract_metadata\<close> has just returned.
\<close>

definition print_summary :: "metadata \<Rightarrow> exn option \<times> event list" where
  "print_summary metadata =
     (case subscript metadata ''word_count'' of
        Inl e \<Rightarrow> (Some e, [])
      | Inr wc \<Rightarrow>
          (case subscript metadata ''page_count'' of
             Inl e \<Rightarrow> (Some e, [Print (Words_extracted wc)])
           | Inr pc \<Rightarrow>
               (case subscript metadata ''source_type'' of
                  Inl e \<Rightarrow> (Some e, [Print (Words_extracted wc)])
                | Inr st \<Rightarrow>
                    (None, [Print (Words_extracted wc), Print (Pages_and_type pc st)]))))"

text \<open>
  The loop of \<open>process_all_pdfs\<close>, with the two dictionaries and the trace so far as
  state; \<open>n\<close> is the number of files and \<open>i\<close> the index from \<open>enumerate(pdf_files, 1)\<close>.
\<close>

fun process_files ::
  "world \<Rightarrow> nat \<Rightarrow> nat \<Rightarrow> path list \<Rightarrow> (pystr \<times> pystr) list \<Rightarrow> (pystr \<times> metadata) list
     \<Rightarrow> event list
     \<Rightarrow> (exn + (pystr \<times> pystr) list \<times> (pystr \<times> metadata) list) \<times> event list" where
  "process_files w n i [] texts metadata_dict tr = (Inr (texts, metadata_dict), tr)"
| "process_files w n i (pdf_path # rest) texts metadata_dict tr =
     (case extract_text_default w pdf_path of
        (text, tr1) \<Rightarrow>
          if strip text = [] then
            process_files w n (Suc i) rest texts metadata_dict
              (tr @ [Print (Processing i n (name pdf_path))] @ tr1 @ [Print Warn_no_text])
          else
            (case extract_metadata w pdf_path text of
               (Inl e, tr2) \<Rightarrow>
                 (Inl e, tr @ [Print (Processing i n (name pdf_path))] @ tr1 @ tr2)
             | (Inr metadata, tr2) \<Rightarrow>
                 (let doc_id = stem pdf_path;
                      texts = AList.update doc_id text texts;
                      metadata_dict = AList.update doc_id metadata metadata_dict
                  in case print_summary metadata of
                       (Some e, tr3) \<Rightarrow>
                         (Inl e,
                          tr @ [Print (Processing i n (name pdf_path))] @ tr1 @ tr2 @ tr3)
                     | (None, tr3) \<Rightarrow>
                         process_files w n (Suc i) rest texts metadata_dict
                           (tr @ [Print (Processing i n (name pdf_path))] @ tr1 @ tr2 @ tr3))))"

definition process_all_pdfs ::
  "world \<Rightarrow> (exn + (pystr \<times> pystr) list \<times> (pystr \<times> metadata) list) \<times> event list" where
  "process_all_pdfs w =
     (let pdf_files = glob_pdf w
      in if pdf_files = [] then (Inr ([], []), [Print Error_no_pdf_files])
         else process_files w (length pdf_files) 1 pdf_files [] []
                [Print (Files_found (length pdf_files))])"

section \<open>The report\<close>

text \<open>
  The figures interpolated into the fixed layout of the report, in the order in which
  they appear: the general statistics, one line per source type, one entry per document
  (file name, words, pages, source type).
\<close>

record report =
  rep_total_docs :: nat
  rep_total_words :: int
  rep_total_pages :: int
  rep_average_words :: int
  rep_source_types :: "(pystr \<times> int) list"
  rep_details :: "(pyval \<times> int \<times> int \<times> pystr) list"

text \<open>\<open>meta[k]\<close> where the program adds it up: adding a \<open>str\<close> to an \<open>int\<close> is a \<open>TypeError\<close>.\<close>

definition int_item :: "metadata \<Rightarrow> string \<Rightarrow> exn + int" where
  "int_item meta k =
     (case subscript meta k of
        Inl e \<Rightarrow> Inl e
      | Inr (VInt v) \<Rightarrow> Inr v
      | Inr (VStr s) \<Rightarrow> Inl TypeError
      | Inr (VSizeMB n) \<Rightarrow> Inl Unsupported)"

definition str_item :: "metadata \<Rightarrow> string \<Rightarrow> exn + pystr" where
  "str_item meta k =
     (case subscript meta k of
        Inl e \<Rightarrow> Inl e
      | Inr (VStr s) \<Rightarrow> Inr s
      | Inr (VInt v) \<Rightarrow> Inl Unsupported
      | Inr (VSizeMB n) \<Rightarrow> Inl Unsupported)"

text \<open>\<open>sum(meta[k] for meta in metadata_dict.values())\<close>, from the start value in \<open>acc\<close>.\<close>

fun sum_items :: "string \<Rightarrow> (pystr \<times> metadata) list \<Rightarrow> int \<Rightarrow> exn + int" where
  "sum_items k [] acc = Inr acc"
| "sum_items k ((doc_id, meta) # rest) acc =
     (case int_item meta k of
        Inl e \<Rightarrow> Inl e
      | Inr v \<Rightarrow> sum_items k rest (acc + v))"

text \<open>The loop \<open>source_types[stype] = source_types.get(stype, 0) + 1\<close>.\<close>

fun count_source_types ::
  "(pystr \<times> metadata) list \<Rightarrow> (pystr \<times> int) list \<Rightarrow> exn + (pystr \<times> int) list" where
  "count_source_types [] source_types = Inr source_types"
| "count_source_types ((doc_id, meta) # rest) source_types =
     (case str_item meta ''source_type'' of
        Inl e \<Rightarrow> Inl e
      | Inr stype \<Rightarrow>
          count_source_types rest
            (AList.update stype
               ((case map_of source_types stype of None \<Rightarrow> 0 | Some c \<Rightarrow> c) + 1)
               source_types))"

text \<open>The loop over \<open>metadata_dict.items()\<close> that writes the document details.\<close>

fun document_details ::
  "(pystr \<times> metadata) list \<Rightarrow> exn + (pyval \<times> int \<times> int \<times> pystr) list" where
  "document_details [] = Inr []"
| "document_details ((doc_id, meta) # rest) =
     (case subscript meta ''filename'' of
        Inl e \<Rightarrow> Inl e
      | Inr filename \<Rightarrow>
          (case int_item meta ''word_count'' of
             Inl e \<Rightarrow> Inl e
           | Inr wc \<Rightarrow>
               (case int_item meta ''page_count'' of
                  Inl e \<Rightarrow> Inl e
                | Inr pc \<Rightarrow>
                    (case str_item meta ''source_type'' of
                       Inl e \<Rightarrow> Inl e
                     | Inr stype \<Rightarrow>
                         (case document_details rest of
                            Inl e \<Rightarrow> Inl e
                          | Inr ds \<Rightarrow> Inr ((filename, wc, pc, stype) # ds))))))"

text \<open>
  \<open>sorted(source_types.items())\<close> orders the pairs by type name first, names compared
  code point by code point; \<open>//\<close> is floor division, as \<open>div\<close> on \<open>int\<close> is.
\<close>

definition generate_extraction_report ::
  "(pystr \<times> pystr) list \<Rightarrow> (pystr \<times> metadata) list \<Rightarrow> exn + report" where
  "generate_extraction_report texts metadata_dict =
     (let total_docs = length texts
      in case sum_items ''word_count'' metadata_dict 0 of
           Inl e \<Rightarrow> Inl e
         | Inr total_words \<Rightarrow>
             (case sum_items ''page_count'' metadata_dict 0 of
                Inl e \<Rightarrow> Inl e
              | Inr total_pages \<Rightarrow>
                  (case count_source_types metadata_dict [] of
                     Inl e \<Rightarrow> Inl e
                   | Inr source_types \<Rightarrow>
                       (case document_details metadata_dict of
                          Inl e \<Rightarrow> Inl e
                        | Inr details \<Rightarrow>
                            Inr \<lparr>rep_total_docs = total_docs,
                                 rep_total_words = total_words,
                                 rep_total_pages = total_pages,
                                 rep_average_words =
                                   (if 0 < total_docs then total_words div int total_docs
                                    else 0),
                                 rep_source_types = sort source_types,
                                 rep_details = details\<rparr>))))"

section \<open>The JSONL validator\<close>

text \<open>
  The loop of \<open>validate_jsonl\<close> over what the file still yields, \<open>i\<close> the index from
  \<open>enumerate(f, 1)\<close>. The result is the exception that left the function, if any, and
  the trace. Only \<open>json.JSONDecodeError\<close> is handled; an exception raised while the
  next line is read, or another exception of \<open>json.loads\<close>, leaves the function.
\<close>

fun validate_lines :: "world \<Rightarrow> nat \<Rightarrow> line_item list \<Rightarrow> exn option \<times> event list" where
  "validate_lines w i [] = (None, [Print No_problem])"
| "validate_lines w i (Read_fails x # rest) = (Some x, [])"
| "validate_lines w i (Line line # rest) =
     (case json_loads w line of
        Loaded \<Rightarrow>
          (case validate_lines w (Suc i) rest of
             (r, tr) \<Rightarrow> (r, Call_loads line # tr))
      | JSONDecodeError e \<Rightarrow> (None, [Call_loads line, Print (Error_line i e)])
      | Loads_fails x \<Rightarrow> (Some x, [Call_loads line]))"

definition validate_jsonl :: "world \<Rightarrow> pystr \<Rightarrow> exn option \<times> event list" where
  "validate_jsonl w jsonl_path =
     (case read_lines w jsonl_path of
        Inl e \<Rightarrow> (Some e, [])
      | Inr items \<Rightarrow> validate_lines w 1 items)"

section \<open>Notions used in the statements\<close>

text \<open>The backend calls of a trace, in order.\<close>

fun is_call :: "event \<Rightarrow> bool" where
  "is_call (Print m) = False"
| "is_call e = True"

definition calls :: "event list \<Rightarrow> event list" where
  "calls tr = filter is_call tr"

text \<open>
  For the page loops: the exception with which a page ends the loop of a strategy, the
  first such exception in a document, the pages read before it, and their texts joined
  as the loops join them. For PyPDF2 a page without text ends the loop with the
  \<open>TypeError\<close> of \<open>None + "\n"\<close>; pdfplumber skips such a page.
\<close>

fun pypdf2_stops :: "page_result \<Rightarrow> exn option" where
  "pypdf2_stops (Page_text t) = None"
| "pypdf2_stops Page_none = Some TypeError"
| "pypdf2_stops (Page_fails e) = Some e"

fun pdfplumber_stops :: "page_result \<Rightarrow> exn option" where
  "pdfplumber_stops (Page_text t) = None"
| "pdfplumber_stops Page_none = None"
| "pdfplumber_stops (Page_fails e) = Some e"

fun first_failure :: "(page_result \<Rightarrow> exn option) \<Rightarrow> page_result list \<Rightarrow> exn option" where
  "first_failure stops [] = None"
| "first_failure stops (x # xs) =
     (case stops x of Some e \<Rightarrow> Some e | None \<Rightarrow> first_failure stops xs)"

definition pages_read :: "(page_result \<Rightarrow> exn option) \<Rightarrow> page_result list \<Rightarrow> page_result list" where
  "pages_read stops pages = takeWhile (\<lambda>x. stops x = None) pages"

fun texts_of :: "page_result list \<Rightarrow> pystr list" where
  "texts_of [] = []"
| "texts_of (Page_text t # pages) = t # texts_of pages"
| "texts_of (Page_none # pages) = texts_of pages"
| "texts_of (Page_fails e # pages) = texts_of pages"

definition join_pages :: "pystr list \<Rightarrow> pystr" where
  "join_pages ts = concat (map (\<lambda>t. t @ [0x0A]) ts)"

text \<open>
  A metadata dictionary the report can be written from: it has a file name, integer
  word and page counts and a source type that is a string.
\<close>

fun is_int :: "pyval option \<Rightarrow> bool" where
  "is_int (Some (VInt v)) = True"
| "is_int x = False"

fun is_str :: "pyval option \<Rightarrow> bool" where
  "is_str (Some (VStr s)) = True"
| "is_str x = False"

definition report_ready :: "metadata \<Rightarrow> bool" where
  "report_ready meta \<longleftrightarrow>
     map_of meta ''filename'' \<noteq> None \<and> is_int (map_of meta ''word_count'') \<and>
     is_int (map_of meta ''page_count'') \<and> is_str (map_of meta ''source_type'')"

text \<open>
  The classification as the specification words it: four keyword sets in priority
  order, the first set with a keyword occurring in the lowercased file name wins.
\<close>

definition spec_keyword_sets :: "(pystr list \<times> pystr) list" where
  "spec_keyword_sets =
     [([py ''mckinsey'', py ''bain'', py ''bcg'', py ''pwc'', py ''deloitte''], py ''Consulting''),
      ([py ''mit'', py ''standford'', py ''harvard''], py ''Academic''),
      ([py ''google'', py ''microsoft'', py ''openai''], py ''Industry''),
      ([py ''wef'', py ''oecd'', py ''undp'', py ''iti''], py ''Policy'')]"

fun spec_first_match :: "(pystr list \<times> pystr) list \<Rightarrow> pystr \<Rightarrow> pystr" where
  "spec_first_match [] s = py ''Unknown''"
| "spec_first_match ((keywords, label) # sets) s =
     (if list_ex (\<lambda>k. contains k s) keywords then label else spec_first_match sets s)"

section \<open>Example inputs\<close>

text \<open>\<open>str.lower\<close> on strings of ASCII characters.\<close>

definition ascii_lower :: "pystr \<Rightarrow> pystr" where
  "ascii_lower s = map (\<lambda>c. if 0x41 \<le> c \<and> c \<le> 0x5A then c + 0x20 else c) s"

definition raw :: "string \<Rightarrow> path" where
  "raw n = Path (py ''data/raw'') (py n)"

text \<open>
  A directory of three files: a report both backends read, a scan that only PyPDF2
  reads, and a file without text. \<open>broken.pdf\<close> is not a PDF for PyPDF2 and loses its
  second page in both backends. \<open>mixed.pdf\<close> has pages without text before the page
  that fails.
\<close>

definition example_pdfplumber :: "path \<Rightarrow> pdf_result" where
  "example_pdfplumber p =
     (if name p = py ''Deloitte_WEF_Report.pdf''
        then Pages [Page_text (py ''Agentic  AI''), Page_none, Page_text (py ''in 2025'')]
      else if name p = py ''scan.pdf'' then Pages [Page_none, Page_text []]
      else if name p = py ''broken.pdf''
        then Pages [Page_text (py ''ab''), Page_fails (Exception (py ''bad page''))]
      else if name p = py ''mixed.pdf''
        then Pages [Page_none, Page_text (py ''cd''), Page_text [],
                    Page_fails (Exception (py ''bad page'')), Page_text (py ''ef'')]
      else Open_fails (Exception (py ''No /Root object'')))"

definition example_pypdf2 :: "path \<Rightarrow> pdf_result" where
  "example_pypdf2 p =
     (if name p = py ''Deloitte_WEF_Report.pdf''
        then Pages [Page_text (py ''Agentic AI''), Page_text [], Page_text (py ''in 2025'')]
      else if name p = py ''scan.pdf'' then Pages [Page_text (py ''scanned   text'')]
      else if name p = py ''broken.pdf''
        then Pages [Page_text (py ''ab''), Page_fails (Exception (py ''bad page''))]
      else if name p = py ''mixed.pdf''
        then Pages [Page_text (py ''cd''), Page_none, Page_text (py ''ef'')]
      else Pages [Page_text []])"

definition example_info :: "path \<Rightarrow> info_result" where
  "example_info p =
     (if name p = py ''Deloitte_WEF_Report.pdf''
        then Info 3 (Some [(py ''/Title'', py ''Agentic AI''), (py ''/Author'', py ''WEF'')])
      else if name p = py ''scan.pdf'' then Info 1 None
      else Reader_fails (Exception (py ''EOF marker not found'')))"

definition example_world :: world where
  "example_world =
     \<lparr>glob_pdf = [raw ''Deloitte_WEF_Report.pdf'', raw ''scan.pdf'', raw ''empty.pdf''],
      st_size = (\<lambda>p. Inr 2048),
      now_isoformat = (\<lambda>p. py ''2025-01-01T00:00:00''),
      str_lower = ascii_lower,
      pdfplumber_open = example_pdfplumber,
      pypdf2_open = example_pypdf2,
      pypdf2_info = example_info,
      read_lines = (\<lambda>p. Inr [Line (py ''[1]\<newline>''), Line (py ''[2]\<newline>''),
                            Line (py ''NOT JSON\<newline>''), Line (py ''[3]'')]),
      json_loads = (\<lambda>l. if l = py ''NOT JSON\<newline>''
                          then JSONDecodeError (py ''Expecting value'') else Loaded)\<rparr>"

definition empty_world :: world where
  "empty_world = example_world\<lparr>glob_pdf := []\<rparr>"

definition valid_world :: world where
  "valid_world = example_world\<lparr>json_loads := (\<lambda>l. Loaded)\<rparr>"

text \<open>
  A file whose second line is \<open>"[" * 100000\<close>, on which \<open>json.loads\<close> raises
  \<open>RecursionError\<close>, and whose fourth line cannot be decoded.
\<close>

definition deep_line :: pystr where
  "deep_line = replicate 100000 0x5B"

definition deep_world :: world where
  "deep_world =
     example_world
       \<lparr>read_lines := (\<lambda>p. Inr [Line (py ''[1]\<newline>''), Line deep_line,
                                 Line (py ''NOT JSON\<newline>''),
                                 Read_fails (Exception (py ''UnicodeDecodeError''))]),
        json_loads := (\<lambda>l. if l = deep_line
                             then Loads_fails (Exception (py ''RecursionError''))
                           else if l = py ''NOT JSON\<newline>''
                             then JSONDecodeError (py ''Expecting value'')
                           else Loaded)\<rparr>"

text \<open>A file whose third line cannot be decoded.\<close>

definition undecodable_world :: world where
  "undecodable_world =
     example_world
       \<lparr>read_lines := (\<lambda>p. Inr [Line (py ''[1]\<newline>''), Line (py ''[2]\<newline>''),
                                 Read_fails (Exception (py ''UnicodeDecodeError'')),
                                 Line (py ''[3]'')])\<rparr>"

definition example_meta :: "string \<Rightarrow> int \<Rightarrow> int \<Rightarrow> string \<Rightarrow> metadata" where
  "example_meta n wc pc st =
     [(''filename'', VStr (py n)), (''word_count'', VInt wc), (''page_count'', VInt pc),
      (''source_type'', VStr (py st))]"

definition example_texts :: "(pystr \<times> pystr) list" where
  "example_texts = [(py ''a'', py ''x''), (py ''b'', py ''y''), (py ''c'', py ''z'')]"

definition example_metadata_dict :: "(pystr \<times> metadata) list" where
  "example_metadata_dict =
     [(py ''a'', example_meta ''a.pdf'' 100 4 ''Policy''),
      (py ''b'', example_meta ''b.pdf'' 200 5 ''Academic''),
      (py ''c'', example_meta ''c.pdf'' 300 6 ''Policy'')]"

text \<open>What \<open>extract_metadata\<close> returns for \<open>broken.pdf\<close> and the text \<open>"ab"\<close>.\<close>

definition broken_metadata :: metadata where
  "broken_metadata =
     [(''filename'', VStr (py ''broken.pdf'')),
      (''file_size_mb'', VSizeMB 2048),
      (''extraction_date'', VStr (py ''2025-01-01T00:00:00'')),
      (''char_count'', VInt 2),
      (''word_count'', VInt 1),
      (''line_count'', VInt 1),
      (''page_count'', VInt 0),
      (''source_type'', VStr (py ''Unknown''))]"

section \<open>Unfolding rules for concrete inputs\<close>


lemmas text_defs = py_def isspace_def is_control_def strip_def sub_control_def basic_cleaning_def

lemmas example_defs = raw_def example_world_def example_pdfplumber_def example_pypdf2_def
  example_info_def empty_world_def valid_world_def deep_world_def undecodable_world_def
  ascii_lower_def

lemmas run_defs = extract_with_pypdf2_def extract_with_pdfplumber_def extract_text_def
  extract_text_default_def

section \<open>Cleaning (claim C4)\<close>


lemma not_control_space: "\<not> is_control 0x20" by (simp add: is_control_def)
lemma isspace_nl: "isspace 0x0A" by (simp add: isspace_def)

lemma sub_ws_chars: "x \<in> set (sub_ws t) \<Longrightarrow> x = 0x20 \<or> (x \<in> set t \<and> \<not> isspace x)"
proof (induction t rule: sub_ws.induct)
  case 1
  then show ?case by simp
next
  case (2 c cs)
  show ?case
  proof (cases "isspace c")
    case True
    with 2 show ?thesis by (auto dest: set_dropWhileD)
  next
    case False
    with 2 show ?thesis by auto
  qed
qed

lemma ws_run_Cons: "ws_run (a # s) = ((s \<noteq> [] \<and> isspace a \<and> isspace (hd s)) \<or> ws_run s)"
  by (cases s) auto

lemma sub_ws_no_run: "\<not> ws_run (sub_ws t)"
proof (induction t rule: sub_ws.induct)
  case 1
  show ?case by simp
next
  case (2 c cs)
  show ?case
  proof (cases "isspace c")
    case True
    show ?thesis
    proof (cases "dropWhile isspace cs")
      case Nil
      have "sub_ws (c # cs) = 0x20 # sub_ws (dropWhile isspace cs)" using True by simp
      also have "\<dots> = [0x20]" by (simp only: Nil sub_ws.simps)
      finally show ?thesis by simp
    next
      case (Cons x xs)
      then have "\<not> isspace x" using hd_dropWhile [of isspace cs] by auto
      with Cons True 2(1) show ?thesis by (simp add: ws_run_Cons)
    qed
  next
    case False
    with 2(2) show ?thesis by (simp add: ws_run_Cons)
  qed
qed

lemma sub_nl_id: "0x0A \<notin> set s \<Longrightarrow> sub_nl s = s"
  by (induction s rule: sub_nl.induct) auto

lemma sub_nl_sub_ws: "sub_nl (sub_ws t) = sub_ws t"
proof (rule sub_nl_id)
  show "0x0A \<notin> set (sub_ws t)"
    using sub_ws_chars [of "0x0A" t] isspace_nl by auto
qed

lemma ws_run_iff:
  "ws_run s \<longleftrightarrow> (\<exists>ps a b ss. s = ps @ a # b # ss \<and> isspace a \<and> isspace b)"
proof (induction s rule: ws_run.induct, goal_cases)
  case ih: (1 a b cs)
  show ?case
  proof
    assume "ws_run (a # b # cs)"
    then consider "isspace a \<and> isspace b" | "ws_run (b # cs)" by auto
    then show "\<exists>ps x y ss. a # b # cs = ps @ x # y # ss \<and> isspace x \<and> isspace y"
    proof cases
      case 1
      then have "a # b # cs = [] @ a # b # cs \<and> isspace a \<and> isspace b" by simp
      then show ?thesis by blast
    next
      case 2
      with ih obtain ps x y ss where "b # cs = ps @ x # y # ss" "isspace x" "isspace y"
        by auto
      then have "a # b # cs = (a # ps) @ x # y # ss \<and> isspace x \<and> isspace y" by simp
      then show ?thesis by blast
    qed
  next
    assume "\<exists>ps x y ss. a # b # cs = ps @ x # y # ss \<and> isspace x \<and> isspace y"
    then obtain ps x y ss where e: "a # b # cs = ps @ x # y # ss" and s: "isspace x" "isspace y"
      by auto
    show "ws_run (a # b # cs)"
    proof (cases ps)
      case Nil
      with e s show ?thesis by simp
    next
      case (Cons p ps')
      with e have "b # cs = ps' @ x # y # ss" by simp
      with s ih have "ws_run (b # cs)" by blast
      then show ?thesis by simp
    qed
  qed
next
  case 2
  show ?case by simp
next
  case (3 v)
  show ?case by (auto simp: Cons_eq_append_conv)
qed

lemma ws_run_rev: "ws_run (rev s) = ws_run s"
proof -
  have "ws_run (rev s)" if "ws_run s" for s
  proof -
    from that obtain ps a b ss where "s = ps @ a # b # ss" "isspace a" "isspace b"
      unfolding ws_run_iff by auto
    then have "rev s = rev ss @ b # a # rev ps \<and> isspace b \<and> isspace a" by simp
    then show ?thesis unfolding ws_run_iff by blast
  qed
  from this [of s] this [of "rev s"] show ?thesis by auto
qed

lemma ws_run_dropWhile: "ws_run (dropWhile P s) \<Longrightarrow> ws_run s"
proof -
  assume "ws_run (dropWhile P s)"
  then obtain ps a b ss where "dropWhile P s = ps @ a # b # ss" "isspace a" "isspace b"
    unfolding ws_run_iff by auto
  then have "s = (takeWhile P s @ ps) @ a # b # ss \<and> isspace a \<and> isspace b"
    using takeWhile_dropWhile_id [of P s] by simp
  then show ?thesis unfolding ws_run_iff by blast
qed

lemma ws_run_strip: "ws_run (strip s) \<Longrightarrow> ws_run s"
  unfolding strip_def by (auto simp: ws_run_rev dest!: ws_run_dropWhile)

lemma set_strip: "set (strip s) \<subseteq> set s"
  unfolding strip_def by (auto dest!: set_dropWhileD)

lemma last_dropWhile_ne: "dropWhile P xs \<noteq> [] \<Longrightarrow> last (dropWhile P xs) = last xs"
  by (induction xs) (auto split: if_splits)

lemma strip_hd: "strip s \<noteq> [] \<Longrightarrow> \<not> isspace (hd (strip s))"
proof -
  assume ne: "strip s \<noteq> []"
  let ?u = "dropWhile isspace s"
  let ?v = "dropWhile isspace (rev ?u)"
  from ne have v: "?v \<noteq> []" by (simp add: strip_def)
  have u: "?u \<noteq> []"
  proof
    assume "?u = []"
    then have "?v = []" by (simp only: rev.simps dropWhile.simps)
    with v show False by contradiction
  qed
  have "hd (strip s) = last ?v" using v by (simp add: strip_def hd_rev)
  also have "\<dots> = last (rev ?u)" using v by (rule last_dropWhile_ne)
  also have "\<dots> = hd ?u" using u by (simp add: last_rev)
  finally show ?thesis using hd_dropWhile [OF u] by simp
qed

lemma strip_last: "strip s \<noteq> [] \<Longrightarrow> \<not> isspace (last (strip s))"
proof -
  assume ne: "strip s \<noteq> []"
  let ?v = "dropWhile isspace (rev (dropWhile isspace s))"
  from ne have v: "?v \<noteq> []" by (simp add: strip_def)
  have "last (strip s) = hd ?v" using v by (simp add: strip_def last_rev)
  then show ?thesis using hd_dropWhile [OF v] by simp
qed

lemma sub_control_id: "\<forall>c\<in>set s. \<not> is_control c \<Longrightarrow> sub_control s = s"
  by (simp add: sub_control_def)

text \<open>
  Claim C4, amended. The cleaning applies, in this order, the whitespace collapse, the
  newline collapse (which never changes the text any more), the deletion of control
  characters and the trim. For every input the result contains no character of the
  stripped control ranges and neither starts nor ends with whitespace. It contains no
  two adjacent whitespace characters provided every control-range character of the
  input is itself whitespace (U+000B, U+000C, U+001C to U+001F, U+0085): a deleted
  control character between two spaces would leave the spaces adjacent, since the
  deletion runs after the collapse.
\<close>

theorem basic_cleaning_invariants:
  "basic_cleaning text = strip (sub_control (sub_nl (sub_ws text)))
   \<and> sub_nl (sub_ws text) = sub_ws text
   \<and> (\<forall>c\<in>set (basic_cleaning text). \<not> is_control c)
   \<and> (basic_cleaning text \<noteq> [] \<longrightarrow>
        \<not> isspace (hd (basic_cleaning text)) \<and> \<not> isspace (last (basic_cleaning text)))
   \<and> ((\<forall>c\<in>set text. is_control c \<longrightarrow> isspace c) \<longrightarrow> \<not> ws_run (basic_cleaning text))"
proof (intro conjI impI)
  show "basic_cleaning text = strip (sub_control (sub_nl (sub_ws text)))"
    by (simp add: basic_cleaning_def)
  show "sub_nl (sub_ws text) = sub_ws text" by (rule sub_nl_sub_ws)
  show "\<forall>c\<in>set (basic_cleaning text). \<not> is_control c"
    using set_strip [of "sub_control (sub_nl (sub_ws text))"]
    by (auto simp: basic_cleaning_def sub_control_def)
  show "\<not> isspace (hd (basic_cleaning text))" if "basic_cleaning text \<noteq> []"
    using that strip_hd by (simp add: basic_cleaning_def)
  show "\<not> isspace (last (basic_cleaning text))" if "basic_cleaning text \<noteq> []"
    using that strip_last by (simp add: basic_cleaning_def)
  show "\<not> ws_run (basic_cleaning text)" if h: "\<forall>c\<in>set text. is_control c \<longrightarrow> isspace c"
  proof -
    have "\<forall>c\<in>set (sub_ws text). \<not> is_control c"
      using sub_ws_chars [of _ "text"] h not_control_space by auto
    then have "sub_control (sub_ws text) = sub_ws text" by (rule sub_control_id)
    then have "basic_cleaning text = strip (sub_ws text)"
      by (simp add: basic_cleaning_def sub_nl_sub_ws)
    then show ?thesis using ws_run_strip [of "sub_ws text"] sub_ws_no_run [of "text"] by auto
  qed
qed

theorem basic_cleaning_invariants_witness:
  "basic_cleaning [0x61, 0x0A, 0x0A, 0x0A, 0x0A, 0x0A, 0x20, 0x20, 0x20, 0x20, 0x62] =
     [0x61, 0x20, 0x62]
   \<and> \<not> ws_run (basic_cleaning [0x61, 0x0A, 0x0A, 0x0A, 0x0A, 0x0A, 0x20, 0x20, 0x20, 0x20, 0x62])
   \<and> \<not> isspace (hd (basic_cleaning [0x61, 0x0A, 0x0A, 0x0A, 0x0A, 0x0A, 0x20, 0x20, 0x20, 0x20, 0x62]))
   \<and> \<not> isspace (last (basic_cleaning [0x61, 0x0A, 0x0A, 0x0A, 0x0A, 0x0A, 0x20, 0x20, 0x20, 0x20, 0x62]))"
proof -
  let ?t = "[0x61, 0x0A, 0x0A, 0x0A, 0x0A, 0x0A, 0x20, 0x20, 0x20, 0x20, 0x62] :: pystr"
  have h: "\<forall>c\<in>set ?t. is_control c \<longrightarrow> isspace c"
    by (simp add: is_control_def isspace_def)
  have v: "basic_cleaning ?t = [0x61, 0x20, 0x62]"
    by (simp add: text_defs)
  then have ne: "basic_cleaning ?t \<noteq> []" by simp
  from basic_cleaning_invariants [of ?t] h ne v show ?thesis by blast
qed

text \<open>
  The claim as stated fails where a control character that is not whitespace stands
  between two spaces: \<open>"a \x00 b"\<close> is cleaned to \<open>"a  b"\<close>.
\<close>

theorem basic_cleaning_whitespace_run_counterexample:
  "basic_cleaning [0x61, 0x20, 0x00, 0x20, 0x62] = [0x61, 0x20, 0x20, 0x62]
   \<and> ws_run (basic_cleaning [0x61, 0x20, 0x00, 0x20, 0x62])"
  by (simp add: text_defs)

section \<open>Extraction (claims C2, C5, C10), the empty directory (C8), the validator (C7)\<close>

lemma calls_extract_with_pypdf2: "calls (snd (extract_with_pypdf2 w p)) = [Call_pypdf2 p]"
  by (simp add: extract_with_pypdf2_def calls_def split: pdf_result.splits prod.splits option.splits)

lemma calls_extract_with_pdfplumber:
  "calls (snd (extract_with_pdfplumber w p)) = [Call_pdfplumber p]"
  by (simp add: extract_with_pdfplumber_def calls_def
      split: pdf_result.splits prod.splits option.splits)

lemma calls_append: "calls (xs @ ys) = calls xs @ calls ys"
  by (simp add: calls_def)

lemma calls_Print: "calls (Print m # xs) = calls xs"
  by (simp add: calls_def)

text \<open>
  Claim C2. With the default method, \<open>extract_text\<close> calls the pdfplumber strategy
  first; exactly when its result is empty or whitespace-only it calls the PyPDF2
  strategy, once, and returns that strategy's output after cleaning; otherwise it
  returns the cleaned pdfplumber output. The backend calls of the run are these and no
  others.
\<close>

theorem extract_text_default_fallback:
  "extract_text_default w p = extract_text w p (py ''pdfplumber'')
   \<and> fst (extract_text w p (py ''pdfplumber'')) =
       (if strip (fst (extract_with_pdfplumber w p)) = []
        then basic_cleaning (fst (extract_with_pypdf2 w p))
        else basic_cleaning (fst (extract_with_pdfplumber w p)))
   \<and> calls (snd (extract_text w p (py ''pdfplumber''))) =
       (if strip (fst (extract_with_pdfplumber w p)) = []
        then [Call_pdfplumber p, Call_pypdf2 p]
        else [Call_pdfplumber p])"
proof -
  obtain t1 tr1 where a: "extract_with_pdfplumber w p = (t1, tr1)" by (cases "extract_with_pdfplumber w p")
  obtain t2 tr2 where b: "extract_with_pypdf2 w p = (t2, tr2)" by (cases "extract_with_pypdf2 w p")
  have c1: "calls tr1 = [Call_pdfplumber p]" using calls_extract_with_pdfplumber [of w p] a by simp
  have c2: "calls tr2 = [Call_pypdf2 p]" using calls_extract_with_pypdf2 [of w p] b by simp
  show ?thesis
    by (simp add: extract_text_default_def extract_text_def a b c1 c2 calls_append calls_Print)
qed

theorem extract_text_default_fallback_witness:
  "fst (extract_text example_world (raw ''scan.pdf'') (py ''pdfplumber'')) = py ''scanned text''
   \<and> calls (snd (extract_text example_world (raw ''scan.pdf'') (py ''pdfplumber''))) =
       [Call_pdfplumber (raw ''scan.pdf''), Call_pypdf2 (raw ''scan.pdf'')]
   \<and> fst (extract_text example_world (raw ''Deloitte_WEF_Report.pdf'') (py ''pdfplumber'')) =
       py ''Agentic AI in 2025''
   \<and> calls (snd (extract_text example_world (raw ''Deloitte_WEF_Report.pdf'') (py ''pdfplumber''))) =
       [Call_pdfplumber (raw ''Deloitte_WEF_Report.pdf'')]"
proof -
  have a: "fst (extract_with_pdfplumber example_world (raw ''scan.pdf'')) = []"
    by (simp add: run_defs example_defs text_defs)
  have b: "fst (extract_with_pypdf2 example_world (raw ''scan.pdf'')) = py ''scanned   text'' @ [0x0A]"
    by (simp add: run_defs example_defs text_defs)
  have c: "basic_cleaning (py ''scanned   text'' @ [0x0A]) = py ''scanned text''"
    by (simp add: run_defs example_defs text_defs)
  have d: "fst (extract_with_pdfplumber example_world (raw ''Deloitte_WEF_Report.pdf''))
             = py ''Agentic  AI'' @ [0x0A] @ py ''in 2025'' @ [0x0A]"
    by (simp add: run_defs example_defs text_defs)
  have e: "basic_cleaning (py ''Agentic  AI'' @ [0x0A] @ py ''in 2025'' @ [0x0A]) = py ''Agentic AI in 2025''"
    by (simp add: run_defs example_defs text_defs)
  have f: "strip (py ''Agentic  AI'' @ [0x0A] @ py ''in 2025'' @ [0x0A]) \<noteq> []"
    by (simp add: run_defs example_defs text_defs)
  have g: "strip [] = []" by (simp add: run_defs example_defs text_defs)
  show ?thesis
    using extract_text_default_fallback [of example_world "raw ''scan.pdf''"]
      extract_text_default_fallback [of example_world "raw ''Deloitte_WEF_Report.pdf''"]
    by (simp only: a b c d e f g if_True if_False simp_thms)
qed

text \<open>
  Claim C10. For every method string other than \<open>"pdfplumber"\<close>, \<open>extract_text\<close>
  returns the cleaned output of the PyPDF2 strategy, its only backend call is the one
  PyPDF2 call, and the result does not depend on what pdfplumber would give.
\<close>

theorem extract_text_other_method:
  assumes "method \<noteq> py ''pdfplumber''"
  shows "extract_text w p method =
           (basic_cleaning (fst (extract_with_pypdf2 w p)), snd (extract_with_pypdf2 w p))
         \<and> calls (snd (extract_text w p method)) = [Call_pypdf2 p]
         \<and> extract_text (w\<lparr>pdfplumber_open := f\<rparr>) p method = extract_text w p method"
proof -
  have "extract_with_pypdf2 (w\<lparr>pdfplumber_open := f\<rparr>) p = extract_with_pypdf2 w p"
    by (simp add: extract_with_pypdf2_def)
  then show ?thesis
    using assms calls_extract_with_pypdf2 [of w p]
    by (auto simp: extract_text_def split: prod.splits)
qed

theorem extract_text_other_method_witness:
  "extract_text example_world (raw ''empty.pdf'') (py ''pypdf2'') = ([], [Call_pypdf2 (raw ''empty.pdf'')])
   \<and> extract_text example_world (raw ''empty.pdf'') (py ''ocr'') = ([], [Call_pypdf2 (raw ''empty.pdf'')])
   \<and> extract_text example_world (raw ''scan.pdf'') [] =
       (py ''scanned text'', [Call_pypdf2 (raw ''scan.pdf'')])"
proof -
  have n1: "py ''pypdf2'' \<noteq> py ''pdfplumber''" by (simp add: run_defs example_defs text_defs)
  have n2: "py ''ocr'' \<noteq> py ''pdfplumber''" by (simp add: run_defs example_defs text_defs)
  have n3: "[] \<noteq> py ''pdfplumber''" by (simp add: run_defs example_defs text_defs)
  have a: "extract_with_pypdf2 example_world (raw ''empty.pdf'') = ([0x0A], [Call_pypdf2 (raw ''empty.pdf'')])"
    by (simp add: run_defs example_defs text_defs)
  have b: "extract_with_pypdf2 example_world (raw ''scan.pdf'') =
       (py ''scanned   text'' @ [0x0A], [Call_pypdf2 (raw ''scan.pdf'')])"
    by (simp add: run_defs example_defs text_defs)
  have c: "basic_cleaning [0x0A] = []" by (simp add: run_defs example_defs text_defs)
  have d: "basic_cleaning (py ''scanned   text'' @ [0x0A]) = py ''scanned text''" by (simp add: run_defs example_defs text_defs)
  show ?thesis
    using extract_text_other_method [OF n1, of example_world "raw ''empty.pdf''"]
      extract_text_other_method [OF n2, of example_world "raw ''empty.pdf''"]
      extract_text_other_method [OF n3, of example_world "raw ''scan.pdf''"]
    by (simp only: a b c d fst_conv snd_conv simp_thms)
qed

lemma pypdf2_pages_read:
  "pypdf2_pages pages acc =
     (acc @ join_pages (texts_of (pages_read pypdf2_stops pages)),
      first_failure pypdf2_stops pages)"
proof (induction pages arbitrary: acc)
  case Nil
  show ?case by (simp add: join_pages_def pages_read_def)
next
  case (Cons x pages)
  show ?case
  proof (cases x)
    case (Page_text t)
    with Cons [of "acc @ (t @ [0x0A])"] show ?thesis
      by (simp add: join_pages_def pages_read_def)
  next
    case Page_none
    then show ?thesis by (simp add: join_pages_def pages_read_def)
  next
    case (Page_fails e)
    then show ?thesis by (simp add: join_pages_def pages_read_def)
  qed
qed

lemma pdfplumber_pages_read:
  "pdfplumber_pages pages acc =
     (acc @ join_pages (filter (\<lambda>t. t \<noteq> []) (texts_of (pages_read pdfplumber_stops pages))),
      first_failure pdfplumber_stops pages)"
proof (induction pages arbitrary: acc)
  case Nil
  show ?case by (simp add: join_pages_def pages_read_def)
next
  case (Cons x pages)
  show ?case
  proof (cases x)
    case (Page_text t)
    with Cons [of "acc @ (t @ [0x0A])"] Cons [of acc] show ?thesis
      by (simp add: join_pages_def pages_read_def)
  next
    case Page_none
    with Cons [of acc] show ?thesis by (simp add: join_pages_def pages_read_def)
  next
    case (Page_fails e)
    then show ?thesis by (simp add: join_pages_def pages_read_def)
  qed
qed

lemma pages_read_texts:
  "pages_read pypdf2_stops (map Page_text ts @ Page_fails e # rest) = map Page_text ts"
  "pages_read pypdf2_stops (map Page_text ts @ Page_none # rest) = map Page_text ts"
  "pages_read pypdf2_stops (map Page_text ts) = map Page_text ts"
  "pages_read pdfplumber_stops (map Page_text ts @ Page_fails e # rest) = map Page_text ts"
  "pages_read pdfplumber_stops (map Page_text ts) = map Page_text ts"
  by (induction ts) (simp_all add: pages_read_def)

lemma first_failure_texts:
  "first_failure pypdf2_stops (map Page_text ts @ Page_fails e # rest) = Some e"
  "first_failure pypdf2_stops (map Page_text ts @ Page_none # rest) = Some TypeError"
  "first_failure pypdf2_stops (map Page_text ts) = None"
  "first_failure pdfplumber_stops (map Page_text ts @ Page_fails e # rest) = Some e"
  "first_failure pdfplumber_stops (map Page_text ts) = None"
  by (induction ts) simp_all

lemma texts_of_texts: "texts_of (map Page_text ts) = ts"
  by (induction ts) simp_all

text \<open>
  Claim C5, amended. For every path and every behaviour of the backend, each strategy
  returns a text and raises nothing: a failure of the backend becomes one printed warning.
  The text is that of the pages read before the first failure, each followed by a
  newline (for pdfplumber, of those with a non-empty text): the empty string when
  opening the document fails or its first page does, the text of the earlier pages when
  a later page fails. It is not reset to the empty string. For PyPDF2 a page without
  text is such a failure, by the \<open>TypeError\<close> of \<open>None + "\n"\<close>. Without a failure the
  text is that of all pages and no warning is printed.
\<close>

theorem strategies_contain_failures:
  "extract_with_pypdf2 w p =
     (case pypdf2_open w p of
        Open_fails e \<Rightarrow> ([], [Call_pypdf2 p, Print (Warn_pypdf2 (name p) e)])
      | Pages pages \<Rightarrow>
          (join_pages (texts_of (pages_read pypdf2_stops pages)),
           Call_pypdf2 p #
             (case first_failure pypdf2_stops pages of
                None \<Rightarrow> []
              | Some e \<Rightarrow> [Print (Warn_pypdf2 (name p) e)])))
   \<and> extract_with_pdfplumber w p =
     (case pdfplumber_open w p of
        Open_fails e \<Rightarrow> ([], [Call_pdfplumber p, Print (Warn_pdfplumber (name p) e)])
      | Pages pages \<Rightarrow>
          (join_pages (filter (\<lambda>t. t \<noteq> []) (texts_of (pages_read pdfplumber_stops pages))),
           Call_pdfplumber p #
             (case first_failure pdfplumber_stops pages of
                None \<Rightarrow> []
              | Some e \<Rightarrow> [Print (Warn_pdfplumber (name p) e)])))
   \<and> (pypdf2_open w p = Open_fails e \<longrightarrow>
      extract_with_pypdf2 w p = ([], [Call_pypdf2 p, Print (Warn_pypdf2 (name p) e)]))
   \<and> (pypdf2_open w p = Pages (map Page_text ts @ Page_fails e # rest) \<longrightarrow>
      extract_with_pypdf2 w p =
        (concat (map (\<lambda>t. t @ [0x0A]) ts), [Call_pypdf2 p, Print (Warn_pypdf2 (name p) e)]))
   \<and> (pypdf2_open w p = Pages (map Page_text ts @ Page_none # rest) \<longrightarrow>
      extract_with_pypdf2 w p =
        (concat (map (\<lambda>t. t @ [0x0A]) ts),
         [Call_pypdf2 p, Print (Warn_pypdf2 (name p) TypeError)]))
   \<and> (pypdf2_open w p = Pages (map Page_text ts) \<longrightarrow>
      extract_with_pypdf2 w p = (concat (map (\<lambda>t. t @ [0x0A]) ts), [Call_pypdf2 p]))
   \<and> (pdfplumber_open w p = Open_fails e \<longrightarrow>
      extract_with_pdfplumber w p =
        ([], [Call_pdfplumber p, Print (Warn_pdfplumber (name p) e)]))
   \<and> (pdfplumber_open w p = Pages (map Page_text ts @ Page_fails e # rest) \<longrightarrow>
      extract_with_pdfplumber w p =
        (concat (map (\<lambda>t. t @ [0x0A]) (filter (\<lambda>t. t \<noteq> []) ts)),
         [Call_pdfplumber p, Print (Warn_pdfplumber (name p) e)]))
   \<and> (pdfplumber_open w p = Pages (map Page_text ts) \<longrightarrow>
      extract_with_pdfplumber w p =
        (concat (map (\<lambda>t. t @ [0x0A]) (filter (\<lambda>t. t \<noteq> []) ts)), [Call_pdfplumber p]))"
proof -
  have a: "extract_with_pypdf2 w p =
     (case pypdf2_open w p of
        Open_fails e \<Rightarrow> ([], [Call_pypdf2 p, Print (Warn_pypdf2 (name p) e)])
      | Pages pages \<Rightarrow>
          (join_pages (texts_of (pages_read pypdf2_stops pages)),
           Call_pypdf2 p #
             (case first_failure pypdf2_stops pages of
                None \<Rightarrow> []
              | Some e \<Rightarrow> [Print (Warn_pypdf2 (name p) e)])))"
    by (simp add: extract_with_pypdf2_def pypdf2_pages_read
        split: pdf_result.splits option.splits)
  have b: "extract_with_pdfplumber w p =
     (case pdfplumber_open w p of
        Open_fails e \<Rightarrow> ([], [Call_pdfplumber p, Print (Warn_pdfplumber (name p) e)])
      | Pages pages \<Rightarrow>
          (join_pages (filter (\<lambda>t. t \<noteq> []) (texts_of (pages_read pdfplumber_stops pages))),
           Call_pdfplumber p #
             (case first_failure pdfplumber_stops pages of
                None \<Rightarrow> []
              | Some e \<Rightarrow> [Print (Warn_pdfplumber (name p) e)])))"
    by (simp add: extract_with_pdfplumber_def pdfplumber_pages_read
        split: pdf_result.splits option.splits)
  show ?thesis
    apply (intro conjI impI)
            apply (rule a)
           apply (rule b)
          apply (simp_all add: a b pages_read_texts first_failure_texts texts_of_texts
        join_pages_def)
    done
qed

theorem strategies_contain_failures_witness:
  "extract_with_pypdf2 example_world (raw ''broken.pdf'') =
     (py ''ab\<newline>'',
      [Call_pypdf2 (raw ''broken.pdf''),
       Print (Warn_pypdf2 (py ''broken.pdf'') (Exception (py ''bad page'')))])
   \<and> extract_with_pypdf2 example_world (raw ''mixed.pdf'') =
     (py ''cd\<newline>'',
      [Call_pypdf2 (raw ''mixed.pdf''), Print (Warn_pypdf2 (py ''mixed.pdf'') TypeError)])
   \<and> extract_with_pdfplumber example_world (raw ''mixed.pdf'') =
     (py ''cd\<newline>'',
      [Call_pdfplumber (raw ''mixed.pdf''),
       Print (Warn_pdfplumber (py ''mixed.pdf'') (Exception (py ''bad page'')))])
   \<and> extract_with_pdfplumber example_world (raw ''empty.pdf'') =
     ([], [Call_pdfplumber (raw ''empty.pdf''),
           Print (Warn_pdfplumber (py ''empty.pdf'') (Exception (py ''No /Root object'')))])"
proof -
  note t1 = strategies_contain_failures [of example_world "raw ''broken.pdf''", THEN conjunct1]
  note t2 = strategies_contain_failures [of example_world "raw ''mixed.pdf''", THEN conjunct1]
  note t3 = strategies_contain_failures [of example_world "raw ''mixed.pdf''",
      THEN conjunct2, THEN conjunct1]
  note t4 = strategies_contain_failures [of example_world "raw ''empty.pdf''",
      THEN conjunct2, THEN conjunct1]
  have 1: "extract_with_pypdf2 example_world (raw ''broken.pdf'') =
     (py ''ab\<newline>'',
      [Call_pypdf2 (raw ''broken.pdf''),
       Print (Warn_pypdf2 (py ''broken.pdf'') (Exception (py ''bad page'')))])"
    unfolding t1 by (simp add: example_defs py_def pages_read_def join_pages_def)
  have 2: "extract_with_pypdf2 example_world (raw ''mixed.pdf'') =
     (py ''cd\<newline>'',
      [Call_pypdf2 (raw ''mixed.pdf''), Print (Warn_pypdf2 (py ''mixed.pdf'') TypeError)])"
    unfolding t2 by (simp add: example_defs py_def pages_read_def join_pages_def)
  have 3: "extract_with_pdfplumber example_world (raw ''mixed.pdf'') =
     (py ''cd\<newline>'',
      [Call_pdfplumber (raw ''mixed.pdf''),
       Print (Warn_pdfplumber (py ''mixed.pdf'') (Exception (py ''bad page'')))])"
    unfolding t3 by (simp add: example_defs py_def pages_read_def join_pages_def)
  have 4: "extract_with_pdfplumber example_world (raw ''empty.pdf'') =
     ([], [Call_pdfplumber (raw ''empty.pdf''),
           Print (Warn_pdfplumber (py ''empty.pdf'') (Exception (py ''No /Root object'')))])"
    unfolding t4 by (simp add: example_defs py_def pages_read_def join_pages_def)
  from 1 2 3 4 show ?thesis by simp
qed

text \<open>
  The claim as stated fails when the second page of a document fails: the text of the
  first page is returned.
\<close>

theorem pypdf2_partial_text_counterexample:
  "pypdf2_open example_world (raw ''broken.pdf'') =
     Pages [Page_text (py ''ab''), Page_fails (Exception (py ''bad page''))]
   \<and> fst (extract_with_pypdf2 example_world (raw ''broken.pdf'')) = [0x61, 0x62, 0x0A]
   \<and> fst (extract_with_pypdf2 example_world (raw ''broken.pdf'')) \<noteq> []"
  by (simp add: run_defs example_defs text_defs)

text \<open>
  Claim C8. When the directory listing has no PDF file, \<open>process_all_pdfs\<close> prints the
  error line and returns two empty dictionaries; it raises nothing and calls no backend.
\<close>

theorem process_all_pdfs_no_input:
  assumes "glob_pdf w = []"
  shows "process_all_pdfs w = (Inr ([], []), [Print Error_no_pdf_files])
         \<and> calls (snd (process_all_pdfs w)) = []"
  using assms by (simp add: process_all_pdfs_def calls_def)

theorem process_all_pdfs_no_input_witness:
  "process_all_pdfs empty_world = (Inr ([], []), [Print Error_no_pdf_files])
   \<and> calls (snd (process_all_pdfs empty_world)) = []"
proof -
  have "glob_pdf empty_world = []" by (simp add: empty_world_def example_world_def)
  then show ?thesis by (rule process_all_pdfs_no_input)
qed

lemma validate_lines_prefix:
  "\<forall>x\<in>set pre. json_loads w x = Loaded \<Longrightarrow>
   validate_lines w i (map Line pre @ rest) =
     (fst (validate_lines w (i + length pre) rest),
      map Call_loads pre @ snd (validate_lines w (i + length pre) rest))"
  by (induction pre arbitrary: i) (simp_all split: prod.splits)

lemma validate_lines_cases:
  "(\<exists>pre. items = map Line pre \<and> (\<forall>x\<in>set pre. json_loads w x = Loaded))
   \<or> (\<exists>pre l rest. items = map Line pre @ Line l # rest
          \<and> (\<forall>x\<in>set pre. json_loads w x = Loaded) \<and> json_loads w l \<noteq> Loaded)
   \<or> (\<exists>pre x rest. items = map Line pre @ Read_fails x # rest
          \<and> (\<forall>x\<in>set pre. json_loads w x = Loaded))"
proof (induction items)
  case Nil
  let ?A = "\<lambda>items. \<exists>pre. items = map Line pre \<and> (\<forall>x\<in>set pre. json_loads w x = Loaded)"
  have "[] = map Line [] \<and> (\<forall>x\<in>set []. json_loads w x = Loaded)" by simp
  then have "?A []" by (rule exI)
  then show ?case by (rule disjI1)
next
  case (Cons it items)
  let ?A = "\<lambda>items. \<exists>pre. items = map Line pre \<and> (\<forall>x\<in>set pre. json_loads w x = Loaded)"
  let ?B = "\<lambda>items. \<exists>pre l rest. items = map Line pre @ Line l # rest
          \<and> (\<forall>x\<in>set pre. json_loads w x = Loaded) \<and> json_loads w l \<noteq> Loaded"
  let ?C = "\<lambda>items. \<exists>pre x rest. items = map Line pre @ Read_fails x # rest
          \<and> (\<forall>x\<in>set pre. json_loads w x = Loaded)"
  show ?case
  proof (cases it)
    case (Read_fails x)
    then have "it # items = map Line [] @ Read_fails x # items
        \<and> (\<forall>x\<in>set []. json_loads w x = Loaded)" by simp
    then have "?C (it # items)" by (intro exI)
    then show ?thesis by (intro disjI2)
  next
    case (Line l)
    show ?thesis
    proof (cases "json_loads w l = Loaded")
      case False
      with Line have "it # items = map Line [] @ Line l # items
          \<and> (\<forall>x\<in>set []. json_loads w x = Loaded) \<and> json_loads w l \<noteq> Loaded" by simp
      then have "?B (it # items)" by (intro exI)
      then show ?thesis by (intro disjI1 disjI2)
    next
      case True
      from Cons show ?thesis
      proof (elim disjE exE conjE)
        fix pre
        assume "items = map Line pre" "\<forall>x\<in>set pre. json_loads w x = Loaded"
        with Line True have "it # items = map Line (l # pre)
            \<and> (\<forall>x\<in>set (l # pre). json_loads w x = Loaded)" by simp
        then have "?A (it # items)" by (rule exI)
        then show ?thesis by (rule disjI1)
      next
        fix pre l' rest
        assume "items = map Line pre @ Line l' # rest"
          "\<forall>x\<in>set pre. json_loads w x = Loaded" "json_loads w l' \<noteq> Loaded"
        with Line True have "it # items = map Line (l # pre) @ Line l' # rest
            \<and> (\<forall>x\<in>set (l # pre). json_loads w x = Loaded) \<and> json_loads w l' \<noteq> Loaded"
          by simp
        then have "?B (it # items)" by (intro exI)
        then show ?thesis by (intro disjI1 disjI2)
      next
        fix pre x rest
        assume "items = map Line pre @ Read_fails x # rest"
          "\<forall>x\<in>set pre. json_loads w x = Loaded"
        with Line True have "it # items = map Line (l # pre) @ Read_fails x # rest
            \<and> (\<forall>x\<in>set (l # pre). json_loads w x = Loaded)" by simp
        then have "?C (it # items)" by (intro exI)
        then show ?thesis by (intro disjI2)
      qed
    qed
  qed
qed

text \<open>
  Claim C7, amended. The validator reads and parses the lines in order, and every file
  falls under one of these cases (\<open>validate_lines_cases\<close>). If every line parses, the
  success line is printed once, after the last line. If the first line that does not
  parse raises \<open>json.JSONDecodeError\<close>, its 1-based number is printed with the error
  detail and the function returns: what follows it in the file is never read and
  nothing else is printed. If it raises another exception, or the file cannot be opened
  or its next line cannot be read, nothing is printed for it and the exception leaves
  the validator.
\<close>

theorem validate_jsonl_first_error:
  "(read_lines w f = Inl x \<longrightarrow> validate_jsonl w f = (Some x, []))
   \<and> (read_lines w f = Inr items \<and> (\<forall>l\<in>set pre. json_loads w l = Loaded) \<longrightarrow>
        (items = map Line pre \<longrightarrow>
           validate_jsonl w f = (None, map Call_loads pre @ [Print No_problem]))
      \<and> (items = map Line pre @ Line l # rest \<and> json_loads w l = JSONDecodeError e \<longrightarrow>
           validate_jsonl w f =
             (None, map Call_loads pre @ [Call_loads l, Print (Error_line (length pre + 1) e)]))
      \<and> (items = map Line pre @ Line l # rest \<and> json_loads w l = Loads_fails x \<longrightarrow>
           validate_jsonl w f = (Some x, map Call_loads pre @ [Call_loads l]))
      \<and> (items = map Line pre @ Read_fails x # rest \<longrightarrow>
           validate_jsonl w f = (Some x, map Call_loads pre)))"
proof (intro conjI impI)
  assume "read_lines w f = Inl x"
  then show "validate_jsonl w f = (Some x, [])" by (simp add: validate_jsonl_def)
next
  assume h: "read_lines w f = Inr items \<and> (\<forall>l\<in>set pre. json_loads w l = Loaded)"
    and i: "items = map Line pre"
  from h have "validate_lines w 1 (map Line pre @ []) =
      (None, map Call_loads pre @ [Print No_problem])"
    using validate_lines_prefix [of pre w 1 "[]"] by simp
  with h i show "validate_jsonl w f = (None, map Call_loads pre @ [Print No_problem])"
    by (simp add: validate_jsonl_def)
next
  assume h: "read_lines w f = Inr items \<and> (\<forall>l\<in>set pre. json_loads w l = Loaded)"
    and i: "items = map Line pre @ Line l # rest \<and> json_loads w l = JSONDecodeError e"
  from h i have "validate_lines w 1 (map Line pre @ Line l # rest) =
      (None, map Call_loads pre @ [Call_loads l, Print (Error_line (length pre + 1) e)])"
    using validate_lines_prefix [of pre w 1 "Line l # rest"] by simp
  with h i show "validate_jsonl w f =
      (None, map Call_loads pre @ [Call_loads l, Print (Error_line (length pre + 1) e)])"
    by (simp add: validate_jsonl_def)
next
  assume h: "read_lines w f = Inr items \<and> (\<forall>l\<in>set pre. json_loads w l = Loaded)"
    and i: "items = map Line pre @ Line l # rest \<and> json_loads w l = Loads_fails x"
  from h i have "validate_lines w 1 (map Line pre @ Line l # rest) =
      (Some x, map Call_loads pre @ [Call_loads l])"
    using validate_lines_prefix [of pre w 1 "Line l # rest"] by simp
  with h i show "validate_jsonl w f = (Some x, map Call_loads pre @ [Call_loads l])"
    by (simp add: validate_jsonl_def)
next
  assume h: "read_lines w f = Inr items \<and> (\<forall>l\<in>set pre. json_loads w l = Loaded)"
    and i: "items = map Line pre @ Read_fails x # rest"
  from h have "validate_lines w 1 (map Line pre @ Read_fails x # rest) =
      (Some x, map Call_loads pre)"
    using validate_lines_prefix [of pre w 1 "Read_fails x # rest"] by simp
  with h i show "validate_jsonl w f = (Some x, map Call_loads pre)"
    by (simp add: validate_jsonl_def)
qed

theorem validate_jsonl_first_error_witness:
  "validate_jsonl example_world (py ''data.jsonl'') =
     (None, [Call_loads (py ''[1]\<newline>''), Call_loads (py ''[2]\<newline>''),
             Call_loads (py ''NOT JSON\<newline>''),
             Print (Error_line 3 (py ''Expecting value''))])
   \<and> validate_jsonl valid_world (py ''data.jsonl'') =
     (None, [Call_loads (py ''[1]\<newline>''), Call_loads (py ''[2]\<newline>''),
             Call_loads (py ''NOT JSON\<newline>''), Call_loads (py ''[3]''),
             Print No_problem])
   \<and> validate_jsonl undecodable_world (py ''data.jsonl'') =
     (Some (Exception (py ''UnicodeDecodeError'')),
      [Call_loads (py ''[1]\<newline>''), Call_loads (py ''[2]\<newline>'')])"
proof -
  let ?a = "py ''[1]\<newline>''" and ?b = "py ''[2]\<newline>''" and ?c = "py ''NOT JSON\<newline>''"
  let ?d = "py ''[3]''"
  have r1: "read_lines example_world (py ''data.jsonl'') =
      Inr (map Line [?a, ?b] @ Line ?c # [Line ?d])"
    by (simp add: example_world_def)
  have r2: "read_lines valid_world (py ''data.jsonl'') = Inr (map Line [?a, ?b, ?c, ?d])"
    by (simp add: valid_world_def example_world_def)
  have r3: "read_lines undecodable_world (py ''data.jsonl'') =
      Inr (map Line [?a, ?b] @ Read_fails (Exception (py ''UnicodeDecodeError'')) # [Line ?d])"
    by (simp add: undecodable_world_def example_world_def)
  have ok: "\<forall>x\<in>set [?a, ?b]. json_loads example_world x = Loaded"
    by (simp add: example_world_def py_def)
  have ok3: "\<forall>x\<in>set [?a, ?b]. json_loads undecodable_world x = Loaded"
    by (simp add: undecodable_world_def example_world_def py_def)
  have bad: "json_loads example_world ?c = JSONDecodeError (py ''Expecting value'')"
    by (simp add: example_world_def)
  have all: "\<forall>x\<in>set [?a, ?b, ?c, ?d]. json_loads valid_world x = Loaded"
    by (simp add: valid_world_def)
  note t1 = validate_jsonl_first_error [of example_world "py ''data.jsonl''" _
      "map Line [?a, ?b] @ Line ?c # [Line ?d]" "[?a, ?b]" ?c "[Line ?d]" "py ''Expecting value''",
      THEN conjunct2, THEN mp, OF conjI [OF r1 ok], THEN conjunct2, THEN conjunct1, THEN mp,
      OF conjI [OF refl bad]]
  note t2 = validate_jsonl_first_error [of valid_world "py ''data.jsonl''" _
      "map Line [?a, ?b, ?c, ?d]" "[?a, ?b, ?c, ?d]",
      THEN conjunct2, THEN mp, OF conjI [OF r2 all], THEN conjunct1, THEN mp, OF refl]
  note t3 = validate_jsonl_first_error [of undecodable_world "py ''data.jsonl''"
      "Exception (py ''UnicodeDecodeError'')"
      "map Line [?a, ?b] @ Read_fails (Exception (py ''UnicodeDecodeError'')) # [Line ?d]"
      "[?a, ?b]" _ "[Line ?d]",
      THEN conjunct2, THEN mp, OF conjI [OF r3 ok3], THEN conjunct2, THEN conjunct2,
      THEN conjunct2, THEN mp, OF refl]
  have 1: "validate_jsonl example_world (py ''data.jsonl'') =
     (None, [Call_loads ?a, Call_loads ?b, Call_loads ?c,
             Print (Error_line 3 (py ''Expecting value''))])"
    unfolding t1 by simp
  have 2: "validate_jsonl valid_world (py ''data.jsonl'') =
     (None, [Call_loads ?a, Call_loads ?b, Call_loads ?c, Call_loads ?d, Print No_problem])"
    unfolding t2 by simp
  have 3: "validate_jsonl undecodable_world (py ''data.jsonl'') =
     (Some (Exception (py ''UnicodeDecodeError'')), [Call_loads ?a, Call_loads ?b])"
    unfolding t3 by simp
  from 1 2 3 show ?thesis by simp
qed

lemma deep_line_length: "length deep_line = 100000"
  by (simp add: deep_line_def)

lemma deep_line_differs: "py ''[1]\<newline>'' \<noteq> deep_line"
proof
  assume "py ''[1]\<newline>'' = deep_line"
  then have "length (py ''[1]\<newline>'') = length deep_line" by (rule arg_cong)
  moreover have "length (py ''[1]\<newline>'') = 4" by (simp add: py_def)
  ultimately have "(4::nat) = 100000" by (simp only: deep_line_length)
  then show False by simp
qed

text \<open>
  The claim as stated fails for a line that \<open>json.loads\<close> rejects with an exception
  other than \<open>JSONDecodeError\<close>: on the line \<open>"[" * 100000\<close> it raises
  \<open>RecursionError\<close>, no line number is reported and the exception leaves the validator.
\<close>

theorem validate_jsonl_unreported_failure_counterexample:
  "validate_jsonl deep_world (py ''data.jsonl'') =
     (Some (Exception (py ''RecursionError'')),
      [Call_loads (py ''[1]\<newline>''), Call_loads deep_line])
   \<and> length deep_line = 100000"
proof -
  have ne2: "py ''[1]\<newline>'' \<noteq> py ''NOT JSON\<newline>''" by (simp add: py_def)
  have a: "json_loads deep_world (py ''[1]\<newline>'') = Loaded"
    using deep_line_differs ne2 by (simp add: deep_world_def example_world_def)
  have b: "json_loads deep_world deep_line = Loads_fails (Exception (py ''RecursionError''))"
    by (simp add: deep_world_def example_world_def)
  have r: "read_lines deep_world (py ''data.jsonl'') =
      Inr [Line (py ''[1]\<newline>''), Line deep_line,
           Line (py ''NOT JSON\<newline>''), Read_fails (Exception (py ''UnicodeDecodeError''))]"
    by (simp add: deep_world_def example_world_def)
  have "validate_jsonl deep_world (py ''data.jsonl'') =
     (Some (Exception (py ''RecursionError'')),
      [Call_loads (py ''[1]\<newline>''), Call_loads deep_line])"
    unfolding validate_jsonl_def r by (simp add: a b)
  with deep_line_length show ?thesis by simp
qed

section \<open>Metadata (claims C3, C6)\<close>

lemma startswith_iff: "startswith s x \<longleftrightarrow> (\<exists>b. s = x @ b)"
  by (induction s x rule: startswith.induct) auto

lemma contains_iff: "contains x s \<longleftrightarrow> (\<exists>a b. s = a @ x @ b)"
proof (induction s)
  case Nil
  show ?case by auto
next
  case (Cons c cs)
  show ?case
  proof
    assume "contains x (c # cs)"
    then consider "startswith (c # cs) x" | "contains x cs" by auto
    then show "\<exists>a b. c # cs = a @ x @ b"
    proof cases
      case 1
      then obtain b where "c # cs = [] @ x @ b" by (auto simp: startswith_iff)
      then show ?thesis by blast
    next
      case 2
      with Cons obtain a b where "cs = a @ x @ b" by auto
      then have "c # cs = (c # a) @ x @ b" by simp
      then show ?thesis by blast
    qed
  next
    assume "\<exists>a b. c # cs = a @ x @ b"
    then obtain a b where e: "c # cs = a @ x @ b" by auto
    show "contains x (c # cs)"
    proof (cases a)
      case Nil
      with e have "startswith (c # cs) x" by (auto simp: startswith_iff)
      then show ?thesis by simp
    next
      case (Cons a0 a')
      with e have "cs = a' @ x @ b" by simp
      then have "contains x cs" using Cons.IH by blast
      then show ?thesis by simp
    qed
  qed
qed

lemma source_type_of_spec: "source_type_of s = spec_first_match spec_keyword_sets s"
  by (simp add: source_type_of_def spec_keyword_sets_def)

lemma source_type_of_unknown:
  "\<forall>(ks, l)\<in>set spec_keyword_sets. \<forall>k\<in>set ks. \<not> contains k s \<Longrightarrow>
   source_type_of s = py ''Unknown''"
  by (simp add: source_type_of_def spec_keyword_sets_def)

lemma map_of_update_same: "map_of (AList.update k v al) k = Some v"
  by (simp add: update_conv')

lemma extract_metadata_source_type:
  "fst (extract_metadata w p t) = Inr m \<Longrightarrow>
   map_of m ''source_type'' = Some (VStr (source_type_of (str_lower w (name p))))"
  by (auto simp: extract_metadata_def Let_def map_of_update_same split: sum.splits prod.splits)

lemma extract_metadata_returns:
  "st_size w p = Inr sz \<Longrightarrow> \<exists>m. fst (extract_metadata w p t) = Inr m"
  by (simp add: extract_metadata_def Let_def split: prod.splits)

lemma source_type_of_example: "source_type_of (py ''deloitte_wef_report.pdf'') = py ''Consulting''"
  by (simp add: source_type_of_def py_def)

text \<open>
  Claim C3. The source type stored by \<open>extract_metadata\<close> is computed from the
  lowercased file name alone; it is the label of the first of the four keyword sets, in
  the order Consulting, Academic, Industry, Policy, that has a keyword occurring in it
  as a substring, and \<open>Unknown\<close> when no keyword of any set occurs. The file name
  \<open>deloitte_wef_report.pdf\<close>, which has a Consulting and a Policy keyword, is
  classified as Consulting.
\<close>

theorem source_type_classification:
  "(fst (extract_metadata w p text) = Inr m \<longrightarrow>
      map_of m ''source_type'' = Some (VStr (source_type_of (str_lower w (name p)))))
   \<and> source_type_of s = spec_first_match spec_keyword_sets s
   \<and> (contains k s \<longleftrightarrow> (\<exists>a b. s = a @ k @ b))
   \<and> source_type_of (py ''deloitte_wef_report.pdf'') = py ''Consulting''
   \<and> ((\<forall>(ks, l)\<in>set spec_keyword_sets. \<forall>k\<in>set ks. \<not> contains k s) \<longrightarrow>
        source_type_of s = py ''Unknown'')"
  using extract_metadata_source_type [of w p "text" m] source_type_of_spec [of s]
    contains_iff [of k s] source_type_of_example source_type_of_unknown [of s]
  by blast

theorem source_type_classification_witness:
  "(\<exists>m. fst (extract_metadata example_world (raw ''Deloitte_WEF_Report.pdf'') (py ''Agentic AI'')) = Inr m
        \<and> map_of m ''source_type'' = Some (VStr (py ''Consulting'')))
   \<and> source_type_of (py ''annual_report.pdf'') = py ''Unknown''"
proof -
  let ?p = "raw ''Deloitte_WEF_Report.pdf''"
  have "st_size example_world ?p = Inr 2048" by (simp add: example_defs)
  then obtain m where m: "fst (extract_metadata example_world ?p (py ''Agentic AI'')) = Inr m"
    using extract_metadata_returns by blast
  have low: "str_lower example_world (name ?p) = py ''deloitte_wef_report.pdf''"
    by (simp add: example_defs py_def)
  have none: "\<forall>(ks, l)\<in>set spec_keyword_sets. \<forall>k\<in>set ks. \<not> contains k (py ''annual_report.pdf'')"
    by (simp add: spec_keyword_sets_def py_def)
  note t = source_type_classification [of example_world ?p "py ''Agentic AI''" m
      "py ''annual_report.pdf''" "[]"]
  from t m low have 1: "map_of m ''source_type'' = Some (VStr (py ''Consulting''))" by simp
  from t none have 2: "source_type_of (py ''annual_report.pdf'') = py ''Unknown''" by blast
  from m 1 2 show ?thesis by blast
qed

lemma read_pdf_metadata_keys:
  "read_pdf_metadata info md = (md', ev) \<Longrightarrow>
   insert ''page_count'' (fst ` set md) \<subseteq> fst ` set md'"
  by (cases info) (force simp: Let_def dom_update split: option.splits if_splits)+

lemma extract_metadata_keys:
  assumes "st_size w p = Inr sz"
  shows "\<exists>m. fst (extract_metadata w p text) = Inr m
              \<and> {''filename'', ''file_size_mb'', ''extraction_date'', ''char_count'',
                  ''word_count'', ''line_count'', ''page_count'', ''source_type''}
                 \<subseteq> fst ` set m"
proof -
  let ?base = "[(''filename'', VStr (name p)),
                  (''file_size_mb'', VSizeMB sz),
                  (''extraction_date'', VStr (now_isoformat w p)),
                  (''char_count'', VInt (int (length text))),
                  (''word_count'', VInt (int (length (split_ws text)))),
                  (''line_count'', VInt (int (length (split_on 0x0A text))))]"
  obtain md' ev where r: "read_pdf_metadata (pypdf2_info w p) ?base = (md', ev)"
    by (cases "read_pdf_metadata (pypdf2_info w p) ?base")
  from read_pdf_metadata_keys [OF r]
  have k: "insert ''page_count'' (fst ` set ?base) \<subseteq> fst ` set md'" .
  have e: "fst (extract_metadata w p text) =
      Inr (AList.update ''source_type'' (VStr (source_type_of (str_lower w (name p)))) md')"
    using assms r by (simp add: extract_metadata_def Let_def)
  have "{''filename'', ''file_size_mb'', ''extraction_date'', ''char_count'',
                  ''word_count'', ''line_count'', ''page_count'', ''source_type''}
       \<subseteq> fst ` set (AList.update ''source_type'' (VStr (source_type_of (str_lower w (name p)))) md')"
    using k by (auto simp: dom_update)
  with e show "\<exists>m. fst (extract_metadata w p text) = Inr m
              \<and> {''filename'', ''file_size_mb'', ''extraction_date'', ''char_count'',
                  ''word_count'', ''line_count'', ''page_count'', ''source_type''}
                 \<subseteq> fst ` set m" by blast
qed

text \<open>
  Claim C6, amended. Whenever the size of the file can be read, \<open>extract_metadata\<close>
  returns a dictionary that has the keys filename, file_size_mb, extraction_date,
  char_count, word_count, line_count, page_count and source_type. If re-opening the PDF
  or reading its document information fails, the failure is caught and a warning is
  printed, page_count is 0, the keys title, author, subject and creator are absent, and
  the other fields are computed from the path and the text as usual.
\<close>

theorem extract_metadata_reader_failure:
  assumes "st_size w p = Inr sz"
  shows "(pypdf2_info w p = Reader_fails e \<or> pypdf2_info w p = Metadata_fails n e \<longrightarrow>
          extract_metadata w p text =
            (Inr [(''filename'', VStr (name p)),
                  (''file_size_mb'', VSizeMB sz),
                  (''extraction_date'', VStr (now_isoformat w p)),
                  (''char_count'', VInt (int (length text))),
                  (''word_count'', VInt (int (length (split_ws text)))),
                  (''line_count'', VInt (int (length (split_on 0x0A text)))),
                  (''page_count'', VInt 0),
                  (''source_type'', VStr (source_type_of (str_lower w (name p))))],
             [Call_reader p, Print (Warn_metadata e)]))
       \<and> (\<exists>m. fst (extract_metadata w p text) = Inr m
              \<and> {''filename'', ''file_size_mb'', ''extraction_date'', ''char_count'',
                  ''word_count'', ''line_count'', ''page_count'', ''source_type''}
                 \<subseteq> fst ` set m)"
proof (intro conjI impI)
  assume "pypdf2_info w p = Reader_fails e \<or> pypdf2_info w p = Metadata_fails n e"
  then show "extract_metadata w p text =
            (Inr [(''filename'', VStr (name p)),
                  (''file_size_mb'', VSizeMB sz),
                  (''extraction_date'', VStr (now_isoformat w p)),
                  (''char_count'', VInt (int (length text))),
                  (''word_count'', VInt (int (length (split_ws text)))),
                  (''line_count'', VInt (int (length (split_on 0x0A text)))),
                  (''page_count'', VInt 0),
                  (''source_type'', VStr (source_type_of (str_lower w (name p))))],
             [Call_reader p, Print (Warn_metadata e)])"
    using assms by (auto simp: extract_metadata_def Let_def)
next
  show "\<exists>m. fst (extract_metadata w p text) = Inr m
              \<and> {''filename'', ''file_size_mb'', ''extraction_date'', ''char_count'',
                  ''word_count'', ''line_count'', ''page_count'', ''source_type''}
                 \<subseteq> fst ` set m"
    using assms by (rule extract_metadata_keys)
qed

theorem extract_metadata_reader_failure_witness:
  "extract_metadata example_world (raw ''empty.pdf'') (py ''a b'') =
     (Inr [(''filename'', VStr (py ''empty.pdf'')),
           (''file_size_mb'', VSizeMB 2048),
           (''extraction_date'', VStr (py ''2025-01-01T00:00:00'')),
           (''char_count'', VInt 3),
           (''word_count'', VInt 2),
           (''line_count'', VInt 1),
           (''page_count'', VInt 0),
           (''source_type'', VStr (py ''Unknown''))],
      [Call_reader (raw ''empty.pdf''),
       Print (Warn_metadata (Exception (py ''EOF marker not found'')))])"
proof -
  let ?p = "raw ''empty.pdf''"
  have s: "st_size example_world ?p = Inr 2048" by (simp add: example_defs)
  have i: "pypdf2_info example_world ?p = Reader_fails (Exception (py ''EOF marker not found''))
      \<or> pypdf2_info example_world ?p = Metadata_fails 0 (Exception (py ''EOF marker not found''))"
    by (simp add: example_defs py_def)
  have v: "name ?p = py ''empty.pdf''" "now_isoformat example_world ?p = py ''2025-01-01T00:00:00''"
    "str_lower example_world (py ''empty.pdf'') = py ''empty.pdf''"
    "source_type_of (py ''empty.pdf'') = py ''Unknown''"
    "int (length (py ''a b'')) = 3" "int (length (split_ws (py ''a b''))) = 2"
    "int (length (split_on 0x0A (py ''a b''))) = 1"
    by (simp_all add: example_defs py_def source_type_of_def isspace_def)
  note t = extract_metadata_reader_failure [OF s, of "Exception (py ''EOF marker not found'')" 0
      "py ''a b''", THEN conjunct1, THEN mp, OF i]
  show ?thesis unfolding t v ..
qed

text \<open>
  The claim as stated fails for a file that PyPDF2 cannot open: the returned dictionary
  has no entry for title, author, subject or creator.
\<close>

theorem extract_metadata_missing_keys_counterexample:
  "extract_metadata example_world (raw ''broken.pdf'') (py ''ab'') =
     (Inr broken_metadata,
      [Call_reader (raw ''broken.pdf''),
       Print (Warn_metadata (Exception (py ''EOF marker not found'')))])
   \<and> map_of broken_metadata ''page_count'' = Some (VInt 0)
   \<and> map_of broken_metadata ''title'' = None
   \<and> map_of broken_metadata ''author'' = None
   \<and> map_of broken_metadata ''subject'' = None
   \<and> map_of broken_metadata ''creator'' = None"
  by (simp add: extract_metadata_def broken_metadata_def example_defs py_def source_type_of_def
      isspace_def)

section \<open>The corpus processor (claim C1)\<close>

lemma set_update_subset: "set (AList.update k v al) \<subseteq> insert (k, v) (set al)"
  by (induction al) auto

lemma update_same_keys:
  "map fst xs = map fst ys \<Longrightarrow> map fst (AList.update k a xs) = map fst (AList.update k b ys)"
  by (simp add: update_keys)

lemma process_files_invariant:
  "fst (process_files w n i ps texts md tr) = Inr (texts', md') \<Longrightarrow>
   map fst texts = map fst md \<Longrightarrow>
   \<forall>(k, t)\<in>set texts. strip t \<noteq> [] \<Longrightarrow>
   map fst texts' = map fst md'
   \<and> (\<forall>(k, t)\<in>set texts'. strip t \<noteq> [])
   \<and> set (map fst texts') =
       set (map fst texts) \<union> stem ` {p \<in> set ps. strip (fst (extract_text_default w p)) \<noteq> []}"
proof (induction ps arbitrary: i texts md tr)
  case Nil
  then show ?case by simp
next
  case (Cons p ps)
  obtain t tr1 where x: "extract_text_default w p = (t, tr1)"
    by (cases "extract_text_default w p")
  show ?case
  proof (cases "strip t = []")
    case True
    with Cons.prems(1) x obtain tr' where
      "fst (process_files w n (Suc i) ps texts md tr') = Inr (texts', md')"
      by simp
    note ih = Cons.IH [OF this Cons.prems(2) Cons.prems(3)]
    have e: "{q \<in> set (p # ps). strip (fst (extract_text_default w q)) \<noteq> []} =
        {q \<in> set ps. strip (fst (extract_text_default w q)) \<noteq> []}"
      using True x by auto
    show ?thesis unfolding e by (rule ih)
  next
    case False
    obtain r tr2 where m: "extract_metadata w p t = (r, tr2)"
      by (cases "extract_metadata w p t")
    from Cons.prems(1) x False m obtain meta where r: "r = Inr meta"
      by (cases r) auto
    obtain o3 tr3 where s: "print_summary meta = (o3, tr3)"
      by (cases "print_summary meta")
    from Cons.prems(1) x False m r s have o3: "o3 = None"
      by (cases o3) (auto simp: Let_def)
    let ?texts = "AList.update (stem p) t texts"
    let ?md = "AList.update (stem p) meta md"
    from Cons.prems(1) x False m r s o3 obtain tr' where
      run: "fst (process_files w n (Suc i) ps ?texts ?md tr') = Inr (texts', md')"
      by (simp add: Let_def)
    have k: "map fst ?texts = map fst ?md"
      using Cons.prems(2) by (rule update_same_keys)
    have v: "\<forall>(k, t)\<in>set ?texts. strip t \<noteq> []"
      using Cons.prems(3) False set_update_subset [of "stem p" t texts] by auto
    have d: "set (map fst ?texts) = insert (stem p) (set (map fst texts))"
      using dom_update [of "stem p" t texts] by simp
    note ih = Cons.IH [OF run k v]
    have e: "{q \<in> set (p # ps). strip (fst (extract_text_default w q)) \<noteq> []} =
        insert p {q \<in> set ps. strip (fst (extract_text_default w q)) \<noteq> []}"
      using False x by auto
    from ih have c: "set (map fst texts') = set (map fst ?texts) \<union>
        stem ` {q \<in> set ps. strip (fst (extract_text_default w q)) \<noteq> []}"
      by blast
    have "set (map fst texts') = set (map fst texts) \<union>
        stem ` {q \<in> set (p # ps). strip (fst (extract_text_default w q)) \<noteq> []}"
      unfolding e c d by auto
    with ih show ?thesis by blast
  qed
qed

lemma print_summary_metadata:
  "fst (extract_metadata w p t) = Inr m \<Longrightarrow> fst (print_summary m) = None"
proof -
  assume a: "fst (extract_metadata w p t) = Inr m"
  then obtain sz where sz: "st_size w p = Inr sz"
    by (cases "st_size w p") (auto simp: extract_metadata_def)
  from extract_metadata_keys [OF sz, of t] a
  have "{''word_count'', ''page_count'', ''source_type''} \<subseteq> fst ` set m" by auto
  then have "map_of m ''word_count'' \<noteq> None" "map_of m ''page_count'' \<noteq> None"
    "map_of m ''source_type'' \<noteq> None"
    by (simp_all add: map_of_eq_None_iff)
  then show ?thesis
    by (auto simp: print_summary_def subscript_def split: option.splits)
qed

lemma process_files_returns:
  "\<forall>p\<in>set ps. \<exists>sz. st_size w p = Inr sz \<Longrightarrow>
   \<exists>r. fst (process_files w n i ps texts md tr) = Inr r"
proof (induction ps arbitrary: i texts md tr)
  case Nil
  show ?case by simp
next
  case (Cons p ps)
  obtain t tr1 where x: "extract_text_default w p = (t, tr1)"
    by (cases "extract_text_default w p")
  from Cons.prems obtain sz where sz: "st_size w p = Inr sz" by auto
  from extract_metadata_returns [OF sz, of t] obtain m tr2 where
    m: "extract_metadata w p t = (Inr m, tr2)"
    by (cases "extract_metadata w p t") auto
  then have "fst (print_summary m) = None"
    using print_summary_metadata [of w p t m] by simp
  then obtain tr3 where s: "print_summary m = (None, tr3)"
    by (cases "print_summary m") auto
  from Cons.prems have rest: "\<forall>p\<in>set ps. \<exists>sz. st_size w p = Inr sz" by simp
  show ?case
    using Cons.IH [OF rest] x m s by (simp add: Let_def)
qed

lemma process_all_pdfs_returns:
  "\<forall>p\<in>set (glob_pdf w). \<exists>sz. st_size w p = Inr sz \<Longrightarrow>
   \<exists>texts md. fst (process_all_pdfs w) = Inr (texts, md)"
  using process_files_returns [of "glob_pdf w" w]
  by (simp add: process_all_pdfs_def Let_def)

text \<open>
  Claim C1. Whenever \<open>process_all_pdfs\<close> returns, the two dictionaries have the same
  keys in the same order, every key of \<open>metadata_dict\<close> has an entry in \<open>texts\<close> that is
  non-empty and not whitespace-only, and the keys are exactly the stems of the listed
  files whose cleaned text is not empty: a file whose cleaned text is empty or
  whitespace-only adds no entry to either dictionary.
\<close>

theorem process_all_pdfs_key_sets:
  assumes "fst (process_all_pdfs w) = Inr (texts, metadata_dict)"
  shows "map fst texts = map fst metadata_dict
     \<and> (\<forall>k\<in>set (map fst metadata_dict). \<exists>t. map_of texts k = Some t \<and> t \<noteq> [] \<and> strip t \<noteq> [])
     \<and> set (map fst texts) =
         stem ` {p \<in> set (glob_pdf w). strip (fst (extract_text_default w p)) \<noteq> []}"
proof -
  have inv: "map fst texts = map fst metadata_dict
     \<and> (\<forall>(k, t)\<in>set texts. strip t \<noteq> [])
     \<and> set (map fst texts) =
         stem ` {p \<in> set (glob_pdf w). strip (fst (extract_text_default w p)) \<noteq> []}"
  proof (cases "glob_pdf w = []")
    case True
    with assms show ?thesis by (simp add: process_all_pdfs_def)
  next
    case False
    with assms have run: "fst (process_files w (length (glob_pdf w)) 1 (glob_pdf w) [] []
        [Print (Files_found (length (glob_pdf w)))]) = Inr (texts, metadata_dict)"
      by (simp add: process_all_pdfs_def Let_def)
    have a: "map fst ([] :: (pystr \<times> pystr) list) = map fst ([] :: (pystr \<times> metadata) list)"
      by simp
    have b: "\<forall>(k, t)\<in>set ([] :: (pystr \<times> pystr) list). strip t \<noteq> []"
      by simp
    show ?thesis
      by (rule process_files_invariant [OF run a b, unfolded list.map(1) list.set(1) sup_bot_left])
  qed
  have "\<exists>t. map_of texts k = Some t \<and> t \<noteq> [] \<and> strip t \<noteq> []"
    if "k \<in> set (map fst metadata_dict)" for k
  proof -
    from inv have "map fst texts = map fst metadata_dict" by blast
    with that have "k \<in> set (map fst texts)" by (simp only:)
    then have "k \<in> fst ` set texts" by simp
    then obtain t where t: "map_of texts k = Some t"
      by (cases "map_of texts k") (auto simp: map_of_eq_None_iff)
    then have "(k, t) \<in> set texts" by (rule map_of_SomeD)
    with inv have "strip t \<noteq> []" by auto
    moreover from this have "t \<noteq> []" by (auto simp: strip_def)
    ultimately show ?thesis using t by simp
  qed
  with inv show ?thesis by blast
qed

lemma example_texts_run:
  "fst (extract_text_default example_world (raw ''Deloitte_WEF_Report.pdf'')) = py ''Agentic AI in 2025''"
  "fst (extract_text_default example_world (raw ''scan.pdf'')) = py ''scanned text''"
  "fst (extract_text_default example_world (raw ''empty.pdf'')) = []"
  by (simp_all add: run_defs example_defs text_defs)

lemma example_stems:
  "stem (raw ''Deloitte_WEF_Report.pdf'') = py ''Deloitte_WEF_Report''"
  "stem (raw ''scan.pdf'') = py ''scan''"
  by (simp_all add: stem_def rfind_def raw_def py_def)

theorem process_all_pdfs_key_sets_witness:
  "\<exists>texts md. fst (process_all_pdfs example_world) = Inr (texts, md)
     \<and> map fst texts = map fst md
     \<and> set (map fst texts) = {py ''Deloitte_WEF_Report'', py ''scan''}"
proof -
  have "\<forall>p\<in>set (glob_pdf example_world). \<exists>sz. st_size example_world p = Inr sz"
    by (simp add: example_world_def)
  then obtain texts md where r: "fst (process_all_pdfs example_world) = Inr (texts, md)"
    using process_all_pdfs_returns by blast
  have g: "glob_pdf example_world = [raw ''Deloitte_WEF_Report.pdf'', raw ''scan.pdf'', raw ''empty.pdf'']"
    by (simp add: example_world_def)
  have s: "strip (py ''Agentic AI in 2025'') \<noteq> []" "strip (py ''scanned text'') \<noteq> []" "strip [] = []"
    by (simp_all add: text_defs)
  have "{p \<in> set (glob_pdf example_world). strip (fst (extract_text_default example_world p)) \<noteq> []}
      = {raw ''Deloitte_WEF_Report.pdf'', raw ''scan.pdf''}"
    unfolding g using example_texts_run s by auto
  then have "stem ` {p \<in> set (glob_pdf example_world). strip (fst (extract_text_default example_world p)) \<noteq> []}
      = {py ''Deloitte_WEF_Report'', py ''scan''}"
    using example_stems by simp
  with process_all_pdfs_key_sets [OF r] r show ?thesis by auto
qed

section \<open>The report (claim C9)\<close>

lemma int_item_Inr: "int_item m k = Inr v \<Longrightarrow> map_of m k = Some (VInt v)"
  by (auto simp: int_item_def subscript_def split: option.splits pyval.splits)

lemma sum_items_sum:
  "sum_items k md acc = Inr t \<Longrightarrow>
   \<exists>ws. map (\<lambda>(d, m). map_of m k) md = map (\<lambda>v. Some (VInt v)) ws \<and> t = acc + sum_list ws"
proof (induction md arbitrary: acc)
  case Nil
  then show ?case by simp
next
  case (Cons dm md)
  obtain d m where dm: "dm = (d, m)" by (cases dm)
  from Cons.prems dm obtain v where v: "int_item m k = Inr v"
    and rest: "sum_items k md (acc + v) = Inr t"
    by (cases "int_item m k") auto
  from Cons.IH [OF rest] obtain ws where
    ws: "map (\<lambda>(d, m). map_of m k) md = map (\<lambda>v. Some (VInt v)) ws" "t = acc + v + sum_list ws"
    by blast
  from int_item_Inr [OF v] ws dm
  have "map (\<lambda>(d, m). map_of m k) (dm # md) = map (\<lambda>v. Some (VInt v)) (v # ws)
      \<and> t = acc + sum_list (v # ws)"
    by simp
  then show ?case by blast
qed

lemma count_source_types_distinct:
  "count_source_types md st = Inr r \<Longrightarrow> distinct (map fst st) \<Longrightarrow> distinct (map fst r)"
proof (induction md arbitrary: st)
  case Nil
  then show ?case by simp
next
  case (Cons dm md)
  obtain d m where dm: "dm = (d, m)" by (cases dm)
  from Cons.prems(1) dm obtain s where
    rest: "count_source_types md
       (AList.update s ((case map_of st s of None \<Rightarrow> 0 | Some c \<Rightarrow> c) + 1) st) = Inr r"
    by (cases "str_item m ''source_type''") auto
  from Cons.prems(2) have "distinct (map fst
       (AList.update s ((case map_of st s of None \<Rightarrow> 0 | Some c \<Rightarrow> c) + 1) st))"
    by (rule distinct_update)
  with Cons.IH [OF rest] show ?case .
qed

lemma sorted_map_fst:
  fixes xs :: "(pystr \<times> int) list"
  shows "sorted xs \<Longrightarrow> sorted (map fst xs)"
  by (induction xs) (auto simp: less_eq_prod_def)

lemma distinct_map_fst_sort:
  fixes xs :: "(pystr \<times> int) list"
  shows "distinct (map fst xs) \<Longrightarrow> distinct (map fst (sort xs))"
proof -
  assume d: "distinct (map fst xs)"
  have "card (set (map fst (sort xs))) = card (set (map fst xs))" by simp
  also have "\<dots> = length (map fst xs)" using d by (rule distinct_card)
  also have "\<dots> = length (map fst (sort xs))" by simp
  finally show ?thesis by (rule card_distinct)
qed

lemma str_item_Inr: "str_item m k = Inr v \<Longrightarrow> map_of m k = Some (VStr v)"
  by (auto simp: str_item_def subscript_def split: option.splits pyval.splits)

lemma count_source_types_counts:
  "count_source_types md st = Inr r \<Longrightarrow>
   map_of r s =
     (if filter (\<lambda>(d, m). map_of m ''source_type'' = Some (VStr s)) md = [] then map_of st s
      else Some ((case map_of st s of None \<Rightarrow> 0 | Some c \<Rightarrow> c)
                 + int (length (filter (\<lambda>(d, m). map_of m ''source_type'' = Some (VStr s)) md))))"
proof (induction md arbitrary: st)
  case Nil
  then show ?case by simp
next
  case (Cons dm md)
  obtain d m where dm: "dm = (d, m)" by (cases dm)
  from Cons.prems dm obtain s' where s': "str_item m ''source_type'' = Inr s'"
    and rest: "count_source_types md
       (AList.update s' ((case map_of st s' of None \<Rightarrow> 0 | Some c \<Rightarrow> c) + 1) st) = Inr r"
    by (cases "str_item m ''source_type''") auto
  note m = str_item_Inr [OF s']
  show ?case
    using Cons.IH [OF rest] m dm
    by (auto simp: update_conv' split: option.splits)
qed

lemma map_of_sort:
  fixes xs :: "(pystr \<times> int) list"
  assumes "distinct (map fst xs)" "distinct (map fst ys)" "set ys = set xs"
  shows "map_of ys = map_of xs"
  using assms by (simp add: map_of_inject_set)

lemma report_totals:
  assumes "generate_extraction_report texts metadata_dict = Inr r"
  shows "rep_total_docs r = length texts
     \<and> (\<exists>ws. map (\<lambda>(d, m). map_of m ''word_count'') metadata_dict = map (\<lambda>v. Some (VInt v)) ws
            \<and> rep_total_words r = sum_list ws)
     \<and> (\<exists>ps. map (\<lambda>(d, m). map_of m ''page_count'') metadata_dict = map (\<lambda>v. Some (VInt v)) ps
            \<and> rep_total_pages r = sum_list ps)
     \<and> rep_average_words r =
         (if length texts = 0 then 0 else rep_total_words r div int (length texts))
     \<and> sorted (map fst (rep_source_types r))
     \<and> distinct (map fst (rep_source_types r))
     \<and> map_of (rep_source_types r) s =
         (if filter (\<lambda>(d, m). map_of m ''source_type'' = Some (VStr s)) metadata_dict = []
          then None
          else Some (int (length
                 (filter (\<lambda>(d, m). map_of m ''source_type'' = Some (VStr s)) metadata_dict))))"
proof -
  from assms obtain tw where tw: "sum_items ''word_count'' metadata_dict 0 = Inr tw"
    by (cases "sum_items ''word_count'' metadata_dict 0") (auto simp: generate_extraction_report_def)
  from assms tw obtain tp where tp: "sum_items ''page_count'' metadata_dict 0 = Inr tp"
    by (cases "sum_items ''page_count'' metadata_dict 0") (auto simp: generate_extraction_report_def)
  from assms tw tp obtain st where st: "count_source_types metadata_dict [] = Inr st"
    by (cases "count_source_types metadata_dict []") (auto simp: generate_extraction_report_def)
  from assms tw tp st obtain ds where ds: "document_details metadata_dict = Inr ds"
    by (cases "document_details metadata_dict") (auto simp: generate_extraction_report_def)
  from assms tw tp st ds have r: "r = \<lparr>rep_total_docs = length texts,
       rep_total_words = tw, rep_total_pages = tp,
       rep_average_words = (if 0 < length texts then tw div int (length texts) else 0),
       rep_source_types = sort st, rep_details = ds\<rparr>"
    by (simp add: generate_extraction_report_def Let_def)
  from sum_items_sum [OF tw] have w: "\<exists>ws. map (\<lambda>(d, m). map_of m ''word_count'') metadata_dict
        = map (\<lambda>v. Some (VInt v)) ws \<and> rep_total_words r = sum_list ws"
    using r by simp
  from sum_items_sum [OF tp] have p: "\<exists>ps. map (\<lambda>(d, m). map_of m ''page_count'') metadata_dict
        = map (\<lambda>v. Some (VInt v)) ps \<and> rep_total_pages r = sum_list ps"
    using r by simp
  have s: "sorted (map fst (rep_source_types r))"
    using r sorted_map_fst [of "sort st"] by simp
  have "distinct (map fst st)"
    using count_source_types_distinct [OF st] by simp
  then have d: "distinct (map fst (rep_source_types r))"
    using r distinct_map_fst_sort [of st] by simp
  have "map_of (sort st) = map_of st"
    using \<open>distinct (map fst st)\<close> distinct_map_fst_sort [of st]
    by (intro map_of_sort) simp_all
  then have h: "map_of (rep_source_types r) s =
         (if filter (\<lambda>(d, m). map_of m ''source_type'' = Some (VStr s)) metadata_dict = []
          then None
          else Some (int (length
                 (filter (\<lambda>(d, m). map_of m ''source_type'' = Some (VStr s)) metadata_dict))))"
    using r count_source_types_counts [OF st, of s] by simp
  from r w p s d h show ?thesis by simp
qed

lemma int_item_is_int: "is_int (map_of m k) \<Longrightarrow> \<exists>v. int_item m k = Inr v"
  by (cases "map_of m k" rule: is_int.cases) (auto simp: int_item_def subscript_def)

lemma str_item_is_str: "is_str (map_of m k) \<Longrightarrow> \<exists>v. str_item m k = Inr v"
  by (cases "map_of m k" rule: is_str.cases) (auto simp: str_item_def subscript_def)

lemma subscript_present: "map_of m k \<noteq> None \<Longrightarrow> \<exists>v. subscript m k = Inr v"
  by (auto simp: subscript_def)

lemma sum_items_returns:
  "\<forall>(d, m)\<in>set md. is_int (map_of m k) \<Longrightarrow> \<exists>t. sum_items k md acc = Inr t"
proof (induction md arbitrary: acc)
  case Nil
  show ?case by simp
next
  case (Cons dm md)
  obtain d m where dm: "dm = (d, m)" by (cases dm)
  with Cons.prems have "is_int (map_of m k)" by simp
  then obtain v where v: "int_item m k = Inr v" using int_item_is_int by blast
  from Cons.prems have "\<forall>(d, m)\<in>set md. is_int (map_of m k)" by simp
  from Cons.IH [OF this, of "acc + v"] dm v show ?case by simp
qed

lemma count_source_types_returns:
  "\<forall>(d, m)\<in>set md. is_str (map_of m ''source_type'') \<Longrightarrow>
   \<exists>r. count_source_types md st = Inr r"
proof (induction md arbitrary: st)
  case Nil
  show ?case by simp
next
  case (Cons dm md)
  obtain d m where dm: "dm = (d, m)" by (cases dm)
  with Cons.prems have "is_str (map_of m ''source_type'')" by simp
  then obtain s where s: "str_item m ''source_type'' = Inr s" using str_item_is_str by blast
  from Cons.prems have "\<forall>(d, m)\<in>set md. is_str (map_of m ''source_type'')" by simp
  from Cons.IH [OF this] dm s show ?case by simp
qed

lemma document_details_returns:
  "\<forall>(d, m)\<in>set md. report_ready m \<Longrightarrow> \<exists>ds. document_details md = Inr ds"
proof (induction md)
  case Nil
  show ?case by simp
next
  case (Cons dm md)
  obtain d m where dm: "dm = (d, m)" by (cases dm)
  with Cons.prems have r: "report_ready m" by simp
  from r obtain fn where fn: "subscript m ''filename'' = Inr fn"
    using subscript_present [of m "''filename''"] by (auto simp: report_ready_def)
  from r obtain wc where wc: "int_item m ''word_count'' = Inr wc"
    using int_item_is_int [of m "''word_count''"] by (auto simp: report_ready_def)
  from r obtain pc where pc: "int_item m ''page_count'' = Inr pc"
    using int_item_is_int [of m "''page_count''"] by (auto simp: report_ready_def)
  from r obtain s where s: "str_item m ''source_type'' = Inr s"
    using str_item_is_str [of m "''source_type''"] by (auto simp: report_ready_def)
  from Cons.prems have "\<forall>(d, m)\<in>set md. report_ready m" by simp
  from Cons.IH [OF this] obtain ds where "document_details md = Inr ds" by blast
  with dm fn wc pc s show ?case by simp
qed

lemma report_returns:
  assumes "\<forall>(d, m)\<in>set md. report_ready m"
  shows "\<exists>r. generate_extraction_report texts md = Inr r"
proof -
  from assms have w: "\<forall>(d, m)\<in>set md. is_int (map_of m ''word_count'')"
    and p: "\<forall>(d, m)\<in>set md. is_int (map_of m ''page_count'')"
    and s: "\<forall>(d, m)\<in>set md. is_str (map_of m ''source_type'')"
    by (auto simp: report_ready_def)
  from sum_items_returns [OF w] obtain tw where "sum_items ''word_count'' md 0 = Inr tw"
    by blast
  moreover from sum_items_returns [OF p] obtain tp where "sum_items ''page_count'' md 0 = Inr tp"
    by blast
  moreover from count_source_types_returns [OF s] obtain st where
    "count_source_types md [] = Inr st" by blast
  moreover from document_details_returns [OF assms] obtain ds where
    "document_details md = Inr ds" by blast
  ultimately show ?thesis by (simp add: generate_extraction_report_def Let_def)
qed

lemma document_details_ready:
  "document_details md = Inr ds \<Longrightarrow> \<forall>(d, m)\<in>set md. report_ready m"
proof (induction md arbitrary: ds)
  case Nil
  show ?case by simp
next
  case (Cons dm md)
  obtain d m where dm: "dm = (d, m)" by (cases dm)
  from Cons.prems dm obtain fn wc pc s ds' where
    fn: "subscript m ''filename'' = Inr fn" and wc: "int_item m ''word_count'' = Inr wc"
    and pc: "int_item m ''page_count'' = Inr pc" and s: "str_item m ''source_type'' = Inr s"
    and rest: "document_details md = Inr ds'"
    by (auto split: sum.splits)
  from fn have "map_of m ''filename'' \<noteq> None"
    by (auto simp: subscript_def split: option.splits)
  with int_item_Inr [OF wc] int_item_Inr [OF pc] str_item_Inr [OF s]
  have "report_ready m" by (simp add: report_ready_def)
  with Cons.IH [OF rest] dm show ?case by simp
qed

lemma report_returns_iff:
  "(\<exists>r. generate_extraction_report texts md = Inr r) \<longleftrightarrow> (\<forall>(d, m)\<in>set md. report_ready m)"
proof
  assume "\<exists>r. generate_extraction_report texts md = Inr r"
  then obtain ds where "document_details md = Inr ds"
    by (auto simp: generate_extraction_report_def Let_def split: sum.splits)
  then show "\<forall>(d, m)\<in>set md. report_ready m" by (rule document_details_ready)
next
  assume "\<forall>(d, m)\<in>set md. report_ready m"
  then show "\<exists>r. generate_extraction_report texts md = Inr r" by (rule report_returns)
qed

lemma extract_metadata_report_ready:
  "fst (extract_metadata w p t) = Inr m \<Longrightarrow> report_ready m"
  by (cases "pypdf2_info w p")
    (auto simp: extract_metadata_def Let_def report_ready_def update_conv'
      split: sum.splits prod.splits option.splits if_splits)

lemma process_files_report_ready:
  "fst (process_files w n i ps texts md tr) = Inr (texts', md') \<Longrightarrow>
   \<forall>(d, m)\<in>set md. report_ready m \<Longrightarrow>
   \<forall>(d, m)\<in>set md'. report_ready m"
proof (induction ps arbitrary: i texts md tr)
  case Nil
  then show ?case by simp
next
  case (Cons p ps)
  obtain t tr1 where x: "extract_text_default w p = (t, tr1)"
    by (cases "extract_text_default w p")
  show ?case
  proof (cases "strip t = []")
    case True
    with Cons.prems(1) x obtain tr' where
      "fst (process_files w n (Suc i) ps texts md tr') = Inr (texts', md')"
      by simp
    from Cons.IH [OF this Cons.prems(2)] show ?thesis .
  next
    case False
    obtain r tr2 where m: "extract_metadata w p t = (r, tr2)"
      by (cases "extract_metadata w p t")
    from Cons.prems(1) x False m obtain meta where r: "r = Inr meta"
      by (cases r) auto
    obtain o3 tr3 where s: "print_summary meta = (o3, tr3)"
      by (cases "print_summary meta")
    from Cons.prems(1) x False m r s have o3: "o3 = None"
      by (cases o3) (auto simp: Let_def)
    let ?texts = "AList.update (stem p) t texts"
    let ?md = "AList.update (stem p) meta md"
    from Cons.prems(1) x False m r s o3 obtain tr' where
      run: "fst (process_files w n (Suc i) ps ?texts ?md tr') = Inr (texts', md')"
      by (simp add: Let_def)
    have "report_ready meta"
      using extract_metadata_report_ready [of w p t meta] m r by simp
    then have "\<forall>(d, m)\<in>set ?md. report_ready m"
      using Cons.prems(2) set_update_subset [of "stem p" meta md] by auto
    from Cons.IH [OF run this] show ?thesis .
  qed
qed

lemma process_all_pdfs_report_returns:
  assumes "fst (process_all_pdfs w) = Inr (texts, md)"
  shows "\<exists>r. generate_extraction_report texts md = Inr r"
proof -
  have "\<forall>(d, m)\<in>set md. report_ready m"
  proof (cases "glob_pdf w = []")
    case True
    with assms show ?thesis by (simp add: process_all_pdfs_def)
  next
    case False
    with assms have run: "fst (process_files w (length (glob_pdf w)) 1 (glob_pdf w) [] []
        [Print (Files_found (length (glob_pdf w)))]) = Inr (texts, md)"
      by (simp add: process_all_pdfs_def Let_def)
    show ?thesis by (rule process_files_report_ready [OF run]) simp
  qed
  then show ?thesis by (rule report_returns)
qed

text \<open>
  Claim C9. \<open>generate_extraction_report\<close> returns a report exactly when every document
  of \<open>metadata_dict\<close> has a file name, an integer word count and page count and a string
  source type, as every dictionary built by \<open>extract_metadata\<close> has; otherwise the
  missing key or the wrong type raises. In a returned report the total words
  and total pages are their sums, the number of documents is the size of \<open>texts\<close>, the
  average is the floor division of the total words by that number and 0 when it is 0,
  and the source-type distribution lists each type name once, in ascending order of the
  names, with the number of documents of that type.
\<close>

theorem generate_extraction_report_totals:
  "((\<exists>r. generate_extraction_report texts metadata_dict = Inr r) \<longleftrightarrow>
      (\<forall>(d, m)\<in>set metadata_dict. report_ready m))
   \<and> (generate_extraction_report texts metadata_dict = Inr r \<longrightarrow>
       rep_total_docs r = length texts
     \<and> (\<exists>ws. map (\<lambda>(d, m). map_of m ''word_count'') metadata_dict = map (\<lambda>v. Some (VInt v)) ws
            \<and> rep_total_words r = sum_list ws)
     \<and> (\<exists>ps. map (\<lambda>(d, m). map_of m ''page_count'') metadata_dict = map (\<lambda>v. Some (VInt v)) ps
            \<and> rep_total_pages r = sum_list ps)
     \<and> rep_average_words r =
         (if length texts = 0 then 0 else rep_total_words r div int (length texts))
     \<and> sorted (map fst (rep_source_types r))
     \<and> distinct (map fst (rep_source_types r))
     \<and> map_of (rep_source_types r) s =
         (if filter (\<lambda>(d, m). map_of m ''source_type'' = Some (VStr s)) metadata_dict = []
          then None
          else Some (int (length
                 (filter (\<lambda>(d, m). map_of m ''source_type'' = Some (VStr s)) metadata_dict)))))"
  using report_returns_iff [of texts metadata_dict] report_totals [of texts metadata_dict r s]
  by blast

theorem generate_extraction_report_totals_witness:
  "\<exists>r. generate_extraction_report example_texts example_metadata_dict = Inr r
      \<and> rep_total_docs r = 3 \<and> rep_total_words r = 600 \<and> rep_total_pages r = 15
      \<and> rep_average_words r = 200
      \<and> rep_source_types r = [(py ''Academic'', 1), (py ''Policy'', 2)]
      \<and> sorted (map fst (rep_source_types r))"
proof -
  have ready: "\<forall>(d, m)\<in>set example_metadata_dict. report_ready m"
    by (simp add: example_metadata_dict_def example_meta_def report_ready_def)
  have e: "generate_extraction_report example_texts example_metadata_dict =
      Inr \<lparr>rep_total_docs = 3, rep_total_words = 600, rep_total_pages = 15,
           rep_average_words = 200,
           rep_source_types = [(py ''Academic'', 1), (py ''Policy'', 2)],
           rep_details =
             [(VStr (py ''a.pdf''), 100, 4, py ''Policy''),
              (VStr (py ''b.pdf''), 200, 5, py ''Academic''),
              (VStr (py ''c.pdf''), 300, 6, py ''Policy'')]\<rparr>"
    by (simp add: generate_extraction_report_def example_texts_def example_metadata_dict_def
        example_meta_def int_item_def str_item_def subscript_def py_def)
  note t = generate_extraction_report_totals [of example_texts example_metadata_dict _
      "py ''Policy''"]
  from t ready have "\<exists>r. generate_extraction_report example_texts example_metadata_dict = Inr r"
    by blast
  moreover from t [THEN conjunct2, THEN mp, OF e]
  have "sorted (map fst [(py ''Academic'', 1::int), (py ''Policy'', 2)])" by simp
  ultimately show ?thesis using e by simp
qed

end
